theory Spec2Isabelle
  imports Main "HOL-Library.Char_ord" "HOL-Library.List_Lexorder" "HOL-Library.Sublist"
begin

section \<open>Data model of an episode directory\<close>

text \<open>
  An episode directory is modelled by the files it holds: a map from a file name to the
  file's size in bytes (\<open>path.exists()\<close> is \<open>\<noteq> None\<close>, \<open>path.stat().st_size\<close> is the
  value). The video file name is taken from the metadata as a plain file name of the
  directory. \<open>metadata.toml\<close> and \<open>publish.log\<close> are kept in fields of their own.
  Text is a list of HOL characters, read as code points below 256.
\<close>

type_synonym dir = "string \<rightharpoonup> nat"

record datetime =
  dt_year :: nat
  dt_month :: nat
  dt_day :: nat
  dt_hour :: nat
  dt_minute :: nat
  dt_second :: nat

text \<open>One call of \<open>log_progress\<close>: the clock reading and the three arguments.\<close>

record log_entry =
  e_ts :: datetime
  e_step :: string
  e_status :: string
  e_detail :: string

record episode_section =
  ep_title :: "string option"
  ep_description :: "string option"
  ep_number :: "string option"

text \<open>
  The parsed \<open>metadata.toml\<close>: \<open>meta["episode"]\<close> (absent: \<open>None\<close>),
  \<open>meta.get("files", {}).get("video")\<close>, and the truth values of
  \<open>publish.get("youtube", False)\<close>, \<open>publish.get("spotify", False)\<close> and
  \<open>publish.get("apple", False)\<close>.
\<close>

record metadata =
  m_episode :: "episode_section option"
  m_files_video :: "string option"
  m_publish_youtube :: bool
  m_publish_spotify :: bool
  m_publish_apple :: bool

datatype meta_file = NoFile | Unparsable string | Parsed metadata

datatype py_error =
    FileNotFoundError string
  | KeyError string
  | TOMLDecodeError string
  | SystemExit nat

record world =
  files :: dir
  metadata_toml :: meta_file
  publish_log :: "log_entry list"
  invoked :: "string list"
  tick :: nat

text \<open>
  What the orchestrator cannot compute itself: the clock (the \<open>n\<close>-th reading of
  \<open>datetime.now(timezone.utc)\<close>), the resolved path of the episode directory, the
  floating-point renderings \<open>f"{size / 1_000_000:.1f} MB"\<close> and \<open>f"{size / 1_000:.0f} KB"\<close>,
  and the five step executors. An executor receives the directory and returns the directory
  it leaves behind together with \<open>Inl\<close> of \<open>str(e)\<close> for the \<open>Exception\<close> it raised or
  \<open>Inr\<close> of the value it returned. Field \<open>invoked\<close> of the world records every executor
  call the orchestrator makes.
\<close>

record env =
  clock :: "nat \<Rightarrow> datetime"
  episode_dir :: string
  fmt_mb :: "nat \<Rightarrow> string"
  fmt_kb :: "nat \<Rightarrow> string"
  exec_audio :: "string \<Rightarrow> string \<Rightarrow> dir \<Rightarrow> dir \<times> (string + unit)"
  exec_transcript :: "string \<Rightarrow> string \<Rightarrow> dir \<Rightarrow> dir \<times> (string + unit)"
  exec_show_notes :: "string \<Rightarrow> string \<Rightarrow> metadata \<Rightarrow> dir \<Rightarrow> dir \<times> (string + unit)"
  exec_youtube :: "string \<Rightarrow> metadata \<Rightarrow> dir \<Rightarrow> dir \<times> (string + string)"
  exec_rss :: "string \<Rightarrow> metadata \<Rightarrow> dir \<Rightarrow> dir \<times> (string + string)"

section \<open>tools/publish.py\<close>

definition load_metadata :: "env \<Rightarrow> world \<Rightarrow> py_error + metadata" where
  "load_metadata env w =
     (case metadata_toml w of
        NoFile \<Rightarrow> Inl (FileNotFoundError (''No metadata.toml in '' @ episode_dir env))
      | Unparsable msg \<Rightarrow> Inl (TOMLDecodeError msg)
      | Parsed meta \<Rightarrow> Inr meta)"

text \<open>
  \<open>log_progress\<close> appends one record to \<open>publish.log\<close> (the file is opened in mode
  \<open>"a"\<close>); the text it writes for the record is \<open>format_line\<close> below.
\<close>

definition log_progress :: "env \<Rightarrow> string \<Rightarrow> string \<Rightarrow> string \<Rightarrow> world \<Rightarrow> world" where
  "log_progress env step status detail w =
     w\<lparr>publish_log := publish_log w @
          [\<lparr>e_ts = clock env (tick w), e_step = step, e_status = status, e_detail = detail\<rparr>],
       tick := Suc (tick w)\<rparr>"

definition all_steps :: "string list" where
  "all_steps = [''audio'', ''transcript'', ''show_notes'', ''youtube'', ''rss'']"

text \<open>\<open>run_steps = steps or all_steps\<close>: \<open>None\<close> and the empty list both give all steps.\<close>

definition run_steps_of :: "string list option \<Rightarrow> string list" where
  "run_steps_of steps =
     (case steps of None \<Rightarrow> all_steps | Some xs \<Rightarrow> if xs = [] then all_steps else xs)"

text \<open>\<open>str(e)\<close> of the \<open>FileNotFoundError\<close> that \<open>path.stat()\<close> raises on a missing file.\<close>

definition stat_error :: "env \<Rightarrow> string \<Rightarrow> string" where
  "stat_error env name =
     ''[Errno 2] No such file or directory: '' @ [CHR 0x27] @ episode_dir env @ ''/'' @ name @ [CHR 0x27]"

text \<open>
  \<open>joinpath a b\<close> is the path \<open>Path(a) / b\<close>, and \<open>path_name p\<close> is \<open>Path(p).name\<close>: the
  last component of \<open>p\<close>, where an empty component and \<open>.\<close> do not count, and the empty
  string when there is none.
\<close>

fun split_slash :: "string \<Rightarrow> string list" where
  "split_slash [] = [[]]"
| "split_slash (c # cs) =
     (if c = CHR ''/'' then [] # split_slash cs
      else (case split_slash cs of [] \<Rightarrow> [[c]] | x # xs \<Rightarrow> (c # x) # xs))"

definition joinpath :: "string \<Rightarrow> string \<Rightarrow> string" where
  "joinpath a b = (if b \<noteq> [] \<and> hd b = CHR ''/'' then b else a @ ''/'' @ b)"

definition path_name :: "string \<Rightarrow> string" where
  "path_name p =
     (case filter (\<lambda>c. c \<noteq> [] \<and> c \<noteq> ''.'') (split_slash p) of
        [] \<Rightarrow> []
      | c # cs \<Rightarrow> last (c # cs))"

text \<open>
  Step 1. The second component is \<open>True\<close> when the step leaves \<open>publish_episode\<close>
  through the \<open>return\<close> of its \<open>except\<close> branch.
\<close>

definition step_audio :: "env \<Rightarrow> string list \<Rightarrow> string \<Rightarrow> world \<Rightarrow> world \<times> bool" where
  "step_audio env run_steps video w =
     (if ''audio'' \<in> set run_steps then
        if files w video = None then
          (log_progress env ''audio'' ''SKIP''
             (''No video file: '' @ path_name (joinpath (episode_dir env) video)) w, False)
        else if files w ''audio.mp3'' \<noteq> None then
          (log_progress env ''audio'' ''SKIP'' ''audio.mp3 already exists'' w, False)
        else
          (let w1 = log_progress env ''audio'' ''START''
                      (''Extracting from '' @ path_name (joinpath (episode_dir env) video)) w;
               (d, r) = exec_audio env video ''audio.mp3'' (files w1);
               w2 = w1\<lparr>files := d, invoked := invoked w1 @ [''audio'']\<rparr>
           in case r of
                Inl msg \<Rightarrow> (log_progress env ''audio'' ''FAIL'' msg w2, True)
              | Inr u \<Rightarrow>
                  (case d ''audio.mp3'' of
                     None \<Rightarrow>
                       (log_progress env ''audio'' ''FAIL'' (stat_error env ''audio.mp3'') w2, True)
                   | Some sz \<Rightarrow> (log_progress env ''audio'' ''DONE'' (fmt_mb env sz) w2, False)))
      else (w, False))"

definition step_transcript :: "env \<Rightarrow> string list \<Rightarrow> world \<Rightarrow> world" where
  "step_transcript env run_steps w =
     (if ''transcript'' \<in> set run_steps then
        if files w ''transcript.md'' \<noteq> None then
          log_progress env ''transcript'' ''SKIP'' ''transcript.md already exists'' w
        else if files w ''audio.mp3'' = None then
          log_progress env ''transcript'' ''SKIP'' ''No audio.mp3 yet'' w
        else
          (let w1 = log_progress env ''transcript'' ''START'' ''Transcribing with Whisper'' w;
               (d, r) = exec_transcript env ''audio.mp3'' ''transcript.md'' (files w1);
               w2 = w1\<lparr>files := d, invoked := invoked w1 @ [''transcript'']\<rparr>
           in case r of
                Inl msg \<Rightarrow> log_progress env ''transcript'' ''FAIL'' msg w2
              | Inr u \<Rightarrow>
                  (case d ''transcript.md'' of
                     None \<Rightarrow>
                       log_progress env ''transcript'' ''FAIL'' (stat_error env ''transcript.md'') w2
                   | Some sz \<Rightarrow> log_progress env ''transcript'' ''DONE'' (fmt_kb env sz) w2))
      else w)"

definition step_show_notes :: "env \<Rightarrow> string list \<Rightarrow> metadata \<Rightarrow> world \<Rightarrow> world" where
  "step_show_notes env run_steps meta w =
     (if ''show_notes'' \<in> set run_steps then
        if files w ''show-notes.md'' \<noteq> None then
          log_progress env ''show_notes'' ''SKIP'' ''show-notes.md already exists'' w
        else if files w ''transcript.md'' = None then
          log_progress env ''show_notes'' ''SKIP'' ''No transcript yet'' w
        else
          (let w1 = log_progress env ''show_notes'' ''START'' ''Generating with Claude'' w;
               (d, r) = exec_show_notes env ''transcript.md'' ''show-notes.md'' meta (files w1);
               w2 = w1\<lparr>files := d, invoked := invoked w1 @ [''show_notes'']\<rparr>
           in case r of
                Inl msg \<Rightarrow> log_progress env ''show_notes'' ''FAIL'' msg w2
              | Inr u \<Rightarrow>
                  (case d ''show-notes.md'' of
                     None \<Rightarrow>
                       log_progress env ''show_notes'' ''FAIL'' (stat_error env ''show-notes.md'') w2
                   | Some sz \<Rightarrow> log_progress env ''show_notes'' ''DONE'' (fmt_kb env sz) w2))
      else w)"

definition step_youtube :: "env \<Rightarrow> string list \<Rightarrow> string \<Rightarrow> metadata \<Rightarrow> world \<Rightarrow> world" where
  "step_youtube env run_steps video meta w =
     (if ''youtube'' \<in> set run_steps \<and> m_publish_youtube meta then
        if files w video = None then
          log_progress env ''youtube'' ''SKIP'' ''No video file'' w
        else
          (let w1 = log_progress env ''youtube'' ''START'' ''Uploading to YouTube'' w;
               (d, r) = exec_youtube env video meta (files w1);
               w2 = w1\<lparr>files := d, invoked := invoked w1 @ [''youtube'']\<rparr>
           in case r of
                Inl msg \<Rightarrow> log_progress env ''youtube'' ''FAIL'' msg w2
              | Inr yt_url \<Rightarrow> log_progress env ''youtube'' ''DONE'' yt_url w2)
      else w)"

definition step_rss :: "env \<Rightarrow> string list \<Rightarrow> metadata \<Rightarrow> world \<Rightarrow> world" where
  "step_rss env run_steps meta w =
     (if ''rss'' \<in> set run_steps \<and> (m_publish_spotify meta \<or> m_publish_apple meta) then
        if files w ''audio.mp3'' = None then
          log_progress env ''rss'' ''SKIP'' ''No audio file'' w
        else
          (let w1 = log_progress env ''rss'' ''START'' ''Updating RSS feed'' w;
               (d, r) = exec_rss env ''audio.mp3'' meta (files w1);
               w2 = w1\<lparr>files := d, invoked := invoked w1 @ [''rss'']\<rparr>
           in case r of
                Inl msg \<Rightarrow> log_progress env ''rss'' ''FAIL'' msg w2
              | Inr feed_url \<Rightarrow> log_progress env ''rss'' ''DONE'' feed_url w2)
      else w)"

definition video_name :: "metadata \<Rightarrow> string" where
  "video_name meta = (case m_files_video meta of None \<Rightarrow> ''video.mp4'' | Some v \<Rightarrow> v)"

text \<open>The five step blocks of \<open>publish_episode\<close>, in the order of the source text.\<close>

definition run_pipeline :: "env \<Rightarrow> string list \<Rightarrow> metadata \<Rightarrow> world \<Rightarrow> world" where
  "run_pipeline env run_steps meta w =
     (let video = video_name meta;
          (w1, returned) = step_audio env run_steps video w
      in if returned then w1
         else
           (let w2 = step_transcript env run_steps w1;
                w3 = step_show_notes env run_steps meta w2;
                w4 = step_youtube env run_steps video meta w3
            in step_rss env run_steps meta w4))"

definition publish_episode :: "env \<Rightarrow> string list option \<Rightarrow> world \<Rightarrow> world \<times> (py_error + unit)" where
  "publish_episode env steps w =
     (case load_metadata env w of
        Inl e \<Rightarrow> (w, Inl e)
      | Inr meta \<Rightarrow>
          (case m_episode meta of
             None \<Rightarrow> (w, Inl (KeyError ''episode''))
           | Some ep \<Rightarrow>
               (case ep_title ep of
                  None \<Rightarrow> (w, Inl (KeyError ''title''))
                | Some title \<Rightarrow> (run_pipeline env (run_steps_of steps) meta w, Inr ()))))"

text \<open>
  \<open>main\<close>: the argument parser accepts \<open>--steps\<close> with \<open>nargs="+"\<close> and the five
  \<open>choices\<close>; it leaves with \<open>SystemExit(2)\<close> on an empty value list or a value that is
  not a choice, before \<open>publish_episode\<close> is called. \<open>steps_arg\<close> is \<open>None\<close> when the
  option is not given.
\<close>

definition step_choices :: "string list" where
  "step_choices = [''audio'', ''transcript'', ''show_notes'', ''youtube'', ''rss'']"

definition main :: "env \<Rightarrow> string list option \<Rightarrow> world \<Rightarrow> world \<times> (py_error + unit)" where
  "main env steps_arg w =
     (case steps_arg of
        None \<Rightarrow> publish_episode env None w
      | Some xs \<Rightarrow>
          if xs = [] \<or> (\<exists>x \<in> set xs. x \<notin> set step_choices) then (w, Inl (SystemExit 2))
          else publish_episode env (Some xs) w)"

text \<open>The records a run appends: what the log holds beyond its first \<open>n\<close> records.\<close>

definition appended :: "world \<Rightarrow> world \<Rightarrow> log_entry list" where
  "appended w w' = drop (length (publish_log w)) (publish_log w')"

definition new_calls :: "world \<Rightarrow> world \<Rightarrow> string list" where
  "new_calls w w' = drop (length (invoked w)) (invoked w')"

text \<open>What a record says, without its clock reading.\<close>

definition entry_view :: "log_entry \<Rightarrow> string \<times> string \<times> string" where
  "entry_view e = (e_step e, e_status e, e_detail e)"

definition outcomes :: "world \<Rightarrow> world \<Rightarrow> (string \<times> string \<times> string) list" where
  "outcomes w w' = map entry_view (appended w w')"

definition statuses :: "string set" where
  "statuses = {''START'', ''DONE'', ''FAIL'', ''SKIP''}"

text \<open>The position of a step name in the pipeline (5 for any other name).\<close>

definition step_pos :: "string \<Rightarrow> nat" where
  "step_pos s = length (takeWhile (\<lambda>x. x \<noteq> s) all_steps)"

section \<open>tools/audio.py\<close>

text \<open>
  What the \<open>ffmpeg\<close> subprocess answers: its return code, its standard error, and the size
  of the file it wrote at the output path (\<open>None\<close>: it wrote none and the path is left as
  it was).
\<close>

record ffmpeg_result =
  ff_returncode :: int
  ff_stderr :: string
  ff_output :: "nat option"

definition extract_audio ::
  "(string \<Rightarrow> string \<Rightarrow> dir \<Rightarrow> ffmpeg_result) \<Rightarrow> string \<Rightarrow> string \<Rightarrow> string \<Rightarrow> dir
     \<Rightarrow> dir \<times> (string + unit)" where
  "extract_audio ffmpeg ep_dir video_path audio_path d =
     (if d video_path = None then
        (d, Inl (''Video not found: '' @ ep_dir @ ''/'' @ video_path))
      else
        (let result = ffmpeg video_path audio_path d;
             d' = (case ff_output result of None \<Rightarrow> d | Some sz \<Rightarrow> d(audio_path \<mapsto> sz))
         in if ff_returncode result \<noteq> 0 then
              (d', Inl (''ffmpeg failed: '' @ take 500 (ff_stderr result)))
            else (d', Inr ())))"

text \<open>
  An executor call that keeps to its own output: \<open>only_writes f out\<close> says that \<open>f\<close>
  changes no file of the directory but the one at \<open>out\<close> and does not remove that one;
  \<open>leaves_alone f\<close> says that \<open>f\<close> leaves the directory as it is. \<open>tidy\<close> asks this
  of the five executors as the orchestrator calls them (the audio, transcript and show-notes
  executors write their output path, the upload and the feed write outside the episode
  directory).
\<close>

definition only_writes :: "(dir \<Rightarrow> dir \<times> 'r) \<Rightarrow> string \<Rightarrow> bool" where
  "only_writes f out \<longleftrightarrow>
     (\<forall>d name. (name \<noteq> out \<longrightarrow> fst (f d) name = d name) \<and>
                (d out \<noteq> None \<longrightarrow> fst (f d) out \<noteq> None))"



section \<open>The text of publish.log\<close>

text \<open>
  Decimal digits; \<open>show_nat\<close> is \<open>str(n)\<close> of a natural number, \<open>pad2\<close> and \<open>pad4\<close> are
  the zero-padded fields of \<open>strftime\<close> (\<open>%m\<close>, \<open>%d\<close>, \<open>%H\<close>, \<open>%M\<close>, \<open>%S\<close> and, for
  years from 1000 to 9999, \<open>%Y\<close>).
\<close>

definition digit :: "nat \<Rightarrow> char" where
  "digit n = ''0123456789'' ! (n mod 10)"

fun show_nat :: "nat \<Rightarrow> string" where
  "show_nat n = (if n < 10 then [digit n] else show_nat (n div 10) @ [digit (n mod 10)])"

declare show_nat.simps [simp del]

definition pad2 :: "nat \<Rightarrow> string" where
  "pad2 n = [digit (n div 10), digit n]"

definition pad4 :: "nat \<Rightarrow> string" where
  "pad4 n = [digit (n div 1000), digit (n div 100), digit (n div 10), digit n]"

text \<open>\<open>ts.strftime("%Y-%m-%d %H:%M:%S UTC")\<close>\<close>

definition strftime :: "datetime \<Rightarrow> string" where
  "strftime dt =
     pad4 (dt_year dt) @ ''-'' @ pad2 (dt_month dt) @ ''-'' @ pad2 (dt_day dt) @ '' '' @
     pad2 (dt_hour dt) @ '':'' @ pad2 (dt_minute dt) @ '':'' @ pad2 (dt_second dt) @ '' UTC''"

text \<open>\<open>f"{s:<n}"\<close>: the string, then spaces up to width \<open>n\<close>; a longer string is kept whole.\<close>

definition ljust :: "nat \<Rightarrow> string \<Rightarrow> string" where
  "ljust n s = s @ replicate (n - length s) (CHR '' '')"

definition newline :: char where
  "newline = CHR 0x0A"

text \<open>\<open>line = f"[{ts}] {step:<20} {status:<10} {detail}\n"\<close>\<close>

definition format_line :: "log_entry \<Rightarrow> string" where
  "format_line e =
     ''['' @ strftime (e_ts e) @ ''] '' @ ljust 20 (e_step e) @ '' '' @ ljust 10 (e_status e) @
     '' '' @ e_detail e @ [newline]"

text \<open>The line of a record without its final newline.\<close>

definition line_of :: "log_entry \<Rightarrow> string" where
  "line_of e =
     ''['' @ strftime (e_ts e) @ ''] '' @ ljust 20 (e_step e) @ '' '' @ ljust 10 (e_status e) @
     '' '' @ e_detail e"

text \<open>The file after the writes of \<open>log_progress\<close>, each appended to the end.\<close>

definition log_text :: "log_entry list \<Rightarrow> string" where
  "log_text es = concat (map format_line es)"

text \<open>The shape \<open>YYYY-MM-DD HH:MM:SS UTC\<close>, as the specification writes it.\<close>

definition is_digit :: "char \<Rightarrow> bool" where
  "is_digit c \<longleftrightarrow> c \<in> set ''0123456789''"

definition utc_timestamp :: "string \<Rightarrow> bool" where
  "utc_timestamp s \<longleftrightarrow>
     length s = 23 \<and> list_all is_digit (take 4 s) \<and> s ! 4 = CHR ''-'' \<and>
     list_all is_digit (take 2 (drop 5 s)) \<and> s ! 7 = CHR ''-'' \<and>
     list_all is_digit (take 2 (drop 8 s)) \<and> s ! 10 = CHR '' '' \<and>
     list_all is_digit (take 2 (drop 11 s)) \<and> s ! 13 = CHR '':'' \<and>
     list_all is_digit (take 2 (drop 14 s)) \<and> s ! 16 = CHR '':'' \<and>
     list_all is_digit (take 2 (drop 17 s)) \<and> drop 19 s = '' UTC''"

section \<open>kurt/api/podcast.py: the reader of publish.log\<close>

text \<open>
  The character classes of Python's \<open>re\<close> and \<open>str\<close> on code points below 256:
  \<open>\s\<close>, \<open>\w\<close>, and the line boundaries of \<open>str.splitlines\<close>.
\<close>

definition is_space :: "char \<Rightarrow> bool" where
  "is_space c =
     (let n = (of_char c :: nat)
      in (9 \<le> n \<and> n \<le> 13) \<or> (28 \<le> n \<and> n \<le> 32) \<or> n = 133 \<or> n = 160)"

definition is_word :: "char \<Rightarrow> bool" where
  "is_word c =
     (let n = (of_char c :: nat)
      in (48 \<le> n \<and> n \<le> 57) \<or> (65 \<le> n \<and> n \<le> 90) \<or> n = 95 \<or> (97 \<le> n \<and> n \<le> 122) \<or>
         n = 170 \<or> n = 178 \<or> n = 179 \<or> n = 181 \<or> n = 185 \<or> n = 186 \<or>
         (188 \<le> n \<and> n \<le> 190) \<or> (192 \<le> n \<and> n \<le> 214) \<or> (216 \<le> n \<and> n \<le> 246) \<or>
         (248 \<le> n \<and> n \<le> 255))"

definition is_linebreak :: "char \<Rightarrow> bool" where
  "is_linebreak c =
     (let n = (of_char c :: nat) in (10 \<le> n \<and> n \<le> 13) \<or> (28 \<le> n \<and> n \<le> 30) \<or> n = 133)"

text \<open>
  \<open>text.splitlines()\<close>: the pieces between line boundaries, \<open>\r\n\<close> counting as one
  boundary, with no empty piece after a final boundary. \<open>cur\<close> is the piece being read,
  reversed. (\<open>read_text\<close> translates \<open>\r\n\<close> and \<open>\r\<close> to \<open>\n\<close> first, which leaves the
  pieces the same.)
\<close>

fun splitlines_from :: "string \<Rightarrow> string \<Rightarrow> string list" where
  "splitlines_from cur [] = (if cur = [] then [] else [rev cur])"
| "splitlines_from cur (c # cs) =
     (if c = CHR 0x0D then
        (case cs of
           [] \<Rightarrow> [rev cur]
         | d # ds \<Rightarrow>
             if d = CHR 0x0A then rev cur # splitlines_from [] ds
             else rev cur # splitlines_from [] cs)
      else if is_linebreak c then rev cur # splitlines_from [] cs
      else splitlines_from (c # cur) cs)"

definition splitlines :: "string \<Rightarrow> string list" where
  "splitlines text = splitlines_from [] text"

text \<open>
  \<open>re.match(r"\[.*?\]\s+(\w+)\s+(START|DONE|FAIL)\s*(.*)", line)\<close>, returning groups 1
  and 2. \<open>match_rest\<close> matches \<open>\s+(\w+)\s+(START|DONE|FAIL)\<close> at the start of its
  argument: no character is both \<open>\s\<close> and \<open>\w\<close> and the three words begin with neither a
  space nor each other, so the only way the three greedy runs can match is with each run
  as long as possible (\<open>\s*(.*)\<close> then matches whatever follows). \<open>match_from\<close> is the
  lazy \<open>.*?\]\<close>: it tries each \<open>]\<close> from the left and takes the first after which the rest
  matches. The pattern is anchored at the start of the line by \<open>re.match\<close>.
\<close>

definition match_rest :: "string \<Rightarrow> (string \<times> string) option" where
  "match_rest r =
     (let r1 = dropWhile is_space r;
          w = takeWhile is_word r1;
          r2 = dropWhile is_word r1;
          r3 = dropWhile is_space r2
      in if takeWhile is_space r = [] \<or> w = [] \<or> takeWhile is_space r2 = [] then None
         else if prefix ''START'' r3 then Some (w, ''START'')
         else if prefix ''DONE'' r3 then Some (w, ''DONE'')
         else if prefix ''FAIL'' r3 then Some (w, ''FAIL'')
         else None)"

fun match_from :: "string \<Rightarrow> (string \<times> string) option" where
  "match_from [] = None"
| "match_from (c # cs) =
     (if c = CHR '']'' then
        (case match_rest cs of Some g \<Rightarrow> Some g | None \<Rightarrow> match_from cs)
      else match_from cs)"

definition match_line :: "string \<Rightarrow> (string \<times> string) option" where
  "match_line line =
     (case line of [] \<Rightarrow> None | c # cs \<Rightarrow> if c = CHR ''['' then match_from cs else None)"

text \<open>\<open>str.lower()\<close> on the letters A to Z, which is all that group 2 can hold.\<close>

definition lower_char :: "char \<Rightarrow> char" where
  "lower_char c =
     (case map_of (zip ''ABCDEFGHIJKLMNOPQRSTUVWXYZ'' ''abcdefghijklmnopqrstuvwxyz'') c of
        None \<Rightarrow> c | Some d \<Rightarrow> d)"

definition lower :: "string \<Rightarrow> string" where
  "lower s = map lower_char s"

text \<open>
  The loop of \<open>_load_episode\<close> over the lines of the log:
  \<open>steps[m.group(1)] = m.group(2).lower()\<close> for every line that matches.
\<close>

definition record_line :: "string \<Rightarrow> (string \<rightharpoonup> string) \<Rightarrow> (string \<rightharpoonup> string)" where
  "record_line line steps =
     (case match_line line of None \<Rightarrow> steps | Some (s, st) \<Rightarrow> steps(s \<mapsto> lower st))"

text \<open>\<open>pipeline_steps\<close> of \<open>_load_episode\<close>; the argument is \<open>None\<close> when the log does not exist.\<close>

definition pipeline_steps :: "string option \<Rightarrow> (string \<rightharpoonup> string)" where
  "pipeline_steps log_file =
     (case log_file of
        None \<Rightarrow> Map.empty
      | Some text \<Rightarrow> fold record_line (splitlines text) Map.empty)"

text \<open>
  The reading the specification gives to the reader: the status of a step is the outcome,
  in lower case, of the last line that matches with that step name.
\<close>

definition last_outcome :: "string list \<Rightarrow> string \<Rightarrow> string option" where
  "last_outcome lines s =
     (case rev (filter (\<lambda>l. map_option fst (match_line l) = Some s) lines) of
        [] \<Rightarrow> None
      | l # ls \<Rightarrow> map_option (lower \<circ> snd) (match_line l))"

text \<open>
  A record as the orchestrator writes it, with a detail that stays on one line and, for a
  \<open>SKIP\<close>, holds no closing bracket.
\<close>

definition one_line_entry :: "log_entry \<Rightarrow> bool" where
  "one_line_entry e \<longleftrightarrow>
     e_step e \<in> set all_steps \<and> e_status e \<in> statuses \<and>
     (\<forall>c \<in> set (e_detail e). \<not> is_linebreak c) \<and>
     (e_status e = ''SKIP'' \<longrightarrow> CHR '']'' \<notin> set (e_detail e))"

text \<open>
  The status the specification's reading gives a step on such a log, with \<open>SKIP\<close> records
  left out: the outcome, in lower case, of the step's last record that is not a \<open>SKIP\<close>.
\<close>

definition last_status :: "log_entry list \<Rightarrow> string \<Rightarrow> string option" where
  "last_status es s =
     (case rev (filter (\<lambda>e. e_step e = s \<and> e_status e \<noteq> ''SKIP'') es) of
        [] \<Rightarrow> None
      | e # rest \<Rightarrow> Some (lower (e_status e)))"

section \<open>tools/rss_feed.py\<close>

text \<open>
  The \<open>[podcast]\<close> table of \<open>podcast.toml\<close>, each key present or absent, and the file
  itself: missing, not parsable, or parsed with or without the \<open>podcast\<close> table.
\<close>

record podcast_config =
  pc_title :: "string option"
  pc_description :: "string option"
  pc_author :: "string option"
  pc_email :: "string option"
  pc_website :: "string option"
  pc_media_base_url :: "string option"
  pc_language :: "string option"
  pc_category :: "string option"
  pc_cover_url :: "string option"

datatype config_file = NoConfig | BadConfig string | Config "podcast_config option"

text \<open>An entry of the \<open>episodes/\<close> directory, as \<open>iterdir()\<close> lists it.\<close>

record dir_entry =
  d_name :: string
  d_is_dir :: bool
  d_meta :: meta_file
  d_files :: dir

record feed_entry =
  fe_id :: string
  fe_title :: string
  fe_description :: string
  fe_enclosure_url :: string
  fe_enclosure_length :: string
  fe_itunes_episode :: "string option"

record feed =
  f_title :: string
  f_link :: string
  f_description :: string
  f_language :: string
  f_author :: string
  f_email :: string
  f_category :: string
  f_image :: "string option"
  f_entries :: "feed_entry list"

text \<open>
  The repository root with its \<open>podcast.toml\<close>, the listing of \<open>episodes/\<close> (\<open>None\<close>
  when the directory does not exist) and \<open>feed/podcast.xml\<close>.
\<close>

record workspace =
  ws_root :: string
  ws_config :: config_file
  ws_episodes :: "dir_entry list option"
  ws_feed :: "feed option"

definition str_of_error :: "py_error \<Rightarrow> string" where
  "str_of_error e =
     (case e of
        FileNotFoundError m \<Rightarrow> m
      | KeyError k \<Rightarrow> [CHR 0x27] @ k @ [CHR 0x27]
      | TOMLDecodeError m \<Rightarrow> m
      | SystemExit n \<Rightarrow> show_nat n)"

definition load_podcast_config :: "workspace \<Rightarrow> py_error + podcast_config option" where
  "load_podcast_config ws =
     (case ws_config ws of
        NoConfig \<Rightarrow>
          Inl (FileNotFoundError
            (''No '' @ ws_root ws @ ''/podcast.toml found. Create it with your podcast info.'' @
             [newline] @ ''See podcast.toml.example for the format.''))
      | BadConfig m \<Rightarrow> Inl (TOMLDecodeError m)
      | Config c \<Rightarrow> Inr c)"

text \<open>\<open>d.is_dir() and not d.name.startswith(".")\<close>, then \<open>sorted(..., key=lambda d: d.name)\<close>.\<close>

definition listed :: "dir_entry \<Rightarrow> bool" where
  "listed e \<longleftrightarrow> d_is_dir e \<and> \<not> prefix ''.'' (d_name e)"

definition episode_dirs :: "dir_entry list \<Rightarrow> dir_entry list" where
  "episode_dirs entries = sort_key d_name (filter listed entries)"

text \<open>
  The loop over the episode directories. \<open>fg.add_entry()\<close> puts the new entry in front of
  the entries the feed has (the library's default order). The fields of an entry that need
  the clock, \<open>ffprobe\<close> or the text of a file (published, duration, content, season, type)
  are not modelled; none of them decides whether a directory gets an entry.
\<close>

fun add_entries :: "podcast_config \<Rightarrow> dir_entry list \<Rightarrow> feed_entry list \<Rightarrow> py_error + feed_entry list" where
  "add_entries pc [] acc = Inr acc"
| "add_entries pc (e # es) acc =
     (case d_meta e of
        NoFile \<Rightarrow> add_entries pc es acc
      | Unparsable m \<Rightarrow> Inl (TOMLDecodeError m)
      | Parsed meta \<Rightarrow>
          (case m_episode meta of
             None \<Rightarrow> Inl (KeyError ''episode'')
           | Some ep \<Rightarrow>
               (case d_files e ''audio.mp3'' of
                  None \<Rightarrow> add_entries pc es acc
                | Some sz \<Rightarrow>
                    (case pc_website pc of
                       None \<Rightarrow> Inl (KeyError ''website'')
                     | Some site \<Rightarrow>
                         (case ep_title ep of
                            None \<Rightarrow> Inl (KeyError ''title'')
                          | Some t \<Rightarrow>
                              add_entries pc es
                                (\<lparr>fe_id = d_name e, fe_title = t,
                                  fe_description =
                                    (case ep_description ep of None \<Rightarrow> [] | Some x \<Rightarrow> x),
                                  fe_enclosure_url =
                                    (case pc_media_base_url pc of None \<Rightarrow> site | Some b \<Rightarrow> b) @
                                    ''/episodes/'' @ d_name e @ ''/audio.mp3'',
                                  fe_enclosure_length = show_nat sz,
                                  fe_itunes_episode = ep_number ep\<rparr> # acc))))))"

text \<open>\<open>website = pc.get("website") or pc.get("media_base_url", "")\<close>\<close>

definition website_of :: "podcast_config \<Rightarrow> string" where
  "website_of pc =
     (case pc_website pc of
        Some site \<Rightarrow>
          if site \<noteq> [] then site else (case pc_media_base_url pc of None \<Rightarrow> [] | Some b \<Rightarrow> b)
      | None \<Rightarrow> (case pc_media_base_url pc of None \<Rightarrow> [] | Some b \<Rightarrow> b))"

definition update_rss_feed :: "workspace \<Rightarrow> workspace \<times> (py_error + string)" where
  "update_rss_feed ws =
     (case load_podcast_config ws of
        Inl e \<Rightarrow> (ws, Inl e)
      | Inr None \<Rightarrow> (ws, Inl (KeyError ''podcast''))
      | Inr (Some pc) \<Rightarrow>
          (case pc_title pc of
             None \<Rightarrow> (ws, Inl (KeyError ''title''))
           | Some title \<Rightarrow>
          (case pc_description pc of
             None \<Rightarrow> (ws, Inl (KeyError ''description''))
           | Some description \<Rightarrow>
          (case pc_author pc of
             None \<Rightarrow> (ws, Inl (KeyError ''author''))
           | Some author \<Rightarrow>
          (case pc_email pc of
             None \<Rightarrow> (ws, Inl (KeyError ''email''))
           | Some email \<Rightarrow>
          (case ws_episodes ws of
             None \<Rightarrow>
               (ws, Inl (FileNotFoundError
                  (''[Errno 2] No such file or directory: '' @ [CHR 0x27] @ ws_root ws @
                   ''/episodes'' @ [CHR 0x27])))
           | Some entries \<Rightarrow>
          (case add_entries pc (episode_dirs entries) [] of
             Inl e \<Rightarrow> (ws, Inl e)
           | Inr es \<Rightarrow>
               (ws\<lparr>ws_feed := Some
                   \<lparr>f_title = title, f_link = website_of pc, f_description = description,
                    f_language = (case pc_language pc of None \<Rightarrow> ''en'' | Some l \<Rightarrow> l),
                    f_author = author, f_email = email,
                    f_category = (case pc_category pc of None \<Rightarrow> ''Technology'' | Some c \<Rightarrow> c),
                    f_image = (case pc_cover_url pc of
                                 None \<Rightarrow> None | Some u \<Rightarrow> if u \<noteq> [] then Some u else None),
                    f_entries = es\<rparr>\<rparr>,
                Inr (website_of pc @ ''/feed/podcast.xml'')))))))))"

text \<open>
  The \<open>update_rss_feed\<close> executor as the orchestrator sees it, for the episode directory
  \<open>slug\<close> of a workspace: the call ignores both of its arguments, reads the workspace with
  the episode's files as they are now, and leaves the episode directory alone.
\<close>

definition with_episode_files :: "string \<Rightarrow> dir \<Rightarrow> workspace \<Rightarrow> workspace" where
  "with_episode_files slug d ws =
     ws\<lparr>ws_episodes :=
          map_option (map (\<lambda>e. if d_name e = slug then e\<lparr>d_files := d\<rparr> else e)) (ws_episodes ws)\<rparr>"

definition rss_executor :: "workspace \<Rightarrow> string \<Rightarrow> string \<Rightarrow> metadata \<Rightarrow> dir \<Rightarrow> dir \<times> (string + string)" where
  "rss_executor ws slug audio_path episode_metadata d =
     (case snd (update_rss_feed (with_episode_files slug d ws)) of
        Inl e \<Rightarrow> (d, Inl (str_of_error e))
      | Inr feed_url \<Rightarrow> (d, Inr feed_url))"

text \<open>
  An episode that belongs in the feed, in the words of the specification: an episode
  directory with a metadata document and an audio asset.
\<close>

definition qualifies :: "dir_entry \<Rightarrow> bool" where
  "qualifies e \<longleftrightarrow> listed e \<and> d_meta e \<noteq> NoFile \<and> d_files e ''audio.mp3'' \<noteq> None"

section \<open>Example episodes\<close>

text \<open>
  Concrete environments and directories on which the theorems below are instantiated.
  The two size renderings are exact on the sizes the examples use (multiples of 100000 and
  of 1000 bytes).
\<close>

definition mb_example :: "nat \<Rightarrow> string" where
  "mb_example n = show_nat (n div 1000000) @ ''.'' @ [digit (n div 100000)] @ '' MB''"

definition kb_example :: "nat \<Rightarrow> string" where
  "kb_example n = show_nat (n div 1000) @ '' KB''"

definition clock0 :: "nat \<Rightarrow> datetime" where
  "clock0 n = \<lparr>dt_year = 2024, dt_month = 3, dt_day = 9, dt_hour = 14, dt_minute = 5,
     dt_second = n mod 60\<rparr>"

definition env_ok :: env where
  "env_ok = \<lparr>clock = clock0, episode_dir = ''/podcast/episodes/ep001'',
     fmt_mb = mb_example, fmt_kb = kb_example,
     exec_audio = (\<lambda>v a d. (d(a \<mapsto> 1200000), Inr ())),
     exec_transcript = (\<lambda>a t d. (d(t \<mapsto> 3000), Inr ())),
     exec_show_notes = (\<lambda>t s m d. (d(s \<mapsto> 2000), Inr ())),
     exec_youtube = (\<lambda>v m d. (d, Inr ''https://youtube.com/watch?v=abc'')),
     exec_rss = (\<lambda>a m d. (d, Inr ''https://example.com/feed/podcast.xml''))\<rparr>"

text \<open>\<open>ffmpeg\<close> exits with code 1, 600 characters on standard error and no output file.\<close>

definition ffmpeg_bad :: "string \<Rightarrow> string \<Rightarrow> dir \<Rightarrow> ffmpeg_result" where
  "ffmpeg_bad v a d = \<lparr>ff_returncode = 1, ff_stderr = replicate 600 (CHR ''x''), ff_output = None\<rparr>"

definition env_ffmpeg_bad :: env where
  "env_ffmpeg_bad = env_ok\<lparr>exec_audio := extract_audio ffmpeg_bad ''/podcast/episodes/ep001''\<rparr>"

text \<open>Every executor but the audio one raises.\<close>

definition env_failing :: env where
  "env_failing = env_ok\<lparr>
     exec_transcript := (\<lambda>a t d. (d, Inl ''whisper unavailable'')),
     exec_show_notes := (\<lambda>t s m d. (d, Inl ''claude unavailable'')),
     exec_youtube := (\<lambda>v m d. (d, Inl ''quota exceeded'')),
     exec_rss := (\<lambda>a m d. (d, Inl ''feed error''))\<rparr>"

definition meta_all :: metadata where
  "meta_all = \<lparr>m_episode = Some \<lparr>ep_title = Some ''Pilot'', ep_description = None, ep_number = Some ''1''\<rparr>,
     m_files_video = None, m_publish_youtube = True, m_publish_spotify = True,
     m_publish_apple = True\<rparr>"

definition meta_off :: metadata where
  "meta_off = meta_all\<lparr>m_publish_youtube := False, m_publish_spotify := False,
     m_publish_apple := False\<rparr>"

definition w_fresh :: world where
  "w_fresh = \<lparr>files = [''video.mp4'' \<mapsto> 50000000], metadata_toml = Parsed meta_all,
     publish_log = [], invoked = [], tick = 0\<rparr>"

definition w_done :: world where
  "w_done = w_fresh\<lparr>files := [''video.mp4'' \<mapsto> 50000000, ''audio.mp3'' \<mapsto> 1200000,
     ''transcript.md'' \<mapsto> 3000, ''show-notes.md'' \<mapsto> 2000]\<rparr>"

definition w_gated :: world where
  "w_gated = w_fresh\<lparr>files := [''video.mp4'' \<mapsto> 50000000, ''audio.mp3'' \<mapsto> 1200000],
     metadata_toml := Parsed meta_off\<rparr>"

definition w_nometa :: world where
  "w_nometa = w_fresh\<lparr>metadata_toml := NoFile\<rparr>"

text \<open>A workspace with two published episodes, a draft, a hidden directory and a stray file.\<close>

definition pc_example :: podcast_config where
  "pc_example = \<lparr>pc_title = Some ''Boring Podcast'', pc_description = Some ''Talks'',
     pc_author = Some ''Host'', pc_email = Some ''host@example.com'',
     pc_website = Some ''https://example.com'', pc_media_base_url = None, pc_language = None,
     pc_category = None, pc_cover_url = None\<rparr>"

definition ws_example :: workspace where
  "ws_example = \<lparr>ws_root = ''/podcast'', ws_config = Config (Some pc_example),
     ws_episodes = Some
       [\<lparr>d_name = ''ep002'', d_is_dir = True, d_meta = Parsed meta_off,
          d_files = [''audio.mp3'' \<mapsto> 900000]\<rparr>,
        \<lparr>d_name = ''ep001'', d_is_dir = True, d_meta = Parsed meta_all,
          d_files = [''video.mp4'' \<mapsto> 50000000, ''audio.mp3'' \<mapsto> 1200000]\<rparr>,
        \<lparr>d_name = ''ep003'', d_is_dir = True, d_meta = Parsed meta_all,
          d_files = [''video.mp4'' \<mapsto> 70000000]\<rparr>,
        \<lparr>d_name = ''.git'', d_is_dir = True, d_meta = Parsed meta_all,
          d_files = [''audio.mp3'' \<mapsto> 1]\<rparr>,
        \<lparr>d_name = ''notes.txt'', d_is_dir = False, d_meta = NoFile, d_files = Map.empty\<rparr>,
        \<lparr>d_name = ''ep004'', d_is_dir = True, d_meta = NoFile,
          d_files = [''audio.mp3'' \<mapsto> 5]\<rparr>],
     ws_feed = None\<rparr>"

text \<open>A fresh checkout: no \<open>podcast.toml\<close> yet.\<close>

definition ws_unconfigured :: workspace where
  "ws_unconfigured = ws_example\<lparr>ws_config := NoConfig\<rparr>"

definition env_unconfigured :: env where
  "env_unconfigured = env_ok\<lparr>exec_rss := rss_executor ws_unconfigured ''ep001''\<rparr>"

definition env_workspace :: env where
  "env_workspace = env_ok\<lparr>exec_rss := rss_executor ws_example ''ep001''\<rparr>"



section \<open>The steps, one at a time\<close>

lemma log_progress_simps [simp]:
  "publish_log (log_progress env s st d w) =
     publish_log w @ [\<lparr>e_ts = clock env (tick w), e_step = s, e_status = st, e_detail = d\<rparr>]"
  "invoked (log_progress env s st d w) = invoked w"
  "files (log_progress env s st d w) = files w"
  "metadata_toml (log_progress env s st d w) = metadata_toml w"
  "tick (log_progress env s st d w) = Suc (tick w)"
  by (simp_all add: log_progress_def)

lemma appended_self [simp]: "appended w w = []"
  by (simp add: appended_def)

lemma new_calls_self [simp]: "new_calls w w = []"
  by (simp add: new_calls_def)

lemma appended_trans:
  assumes "prefix (publish_log w) (publish_log w1)" and "prefix (publish_log w1) (publish_log w2)"
  shows "appended w w2 = appended w w1 @ appended w1 w2"
  using assms by (auto simp: appended_def prefix_def)

lemma new_calls_trans:
  assumes "prefix (invoked w) (invoked w1)" and "prefix (invoked w1) (invoked w2)"
  shows "new_calls w w2 = new_calls w w1 @ new_calls w1 w2"
  using assms by (auto simp: new_calls_def prefix_def)

lemmas step_defs = step_audio_def step_transcript_def step_show_notes_def step_youtube_def step_rss_def

lemma step_audio_prefix:
  "prefix (publish_log w) (publish_log (fst (step_audio env rs v w)))"
  "prefix (invoked w) (invoked (fst (step_audio env rs v w)))"
  by (auto simp: step_audio_def Let_def split: prod.splits sum.splits option.splits)

lemma step_transcript_prefix:
  "prefix (publish_log w) (publish_log (step_transcript env rs w))"
  "prefix (invoked w) (invoked (step_transcript env rs w))"
  by (auto simp: step_transcript_def Let_def split: prod.splits sum.splits option.splits)

lemma step_show_notes_prefix:
  "prefix (publish_log w) (publish_log (step_show_notes env rs meta w))"
  "prefix (invoked w) (invoked (step_show_notes env rs meta w))"
  by (auto simp: step_show_notes_def Let_def split: prod.splits sum.splits option.splits)

lemma step_youtube_prefix:
  "prefix (publish_log w) (publish_log (step_youtube env rs v meta w))"
  "prefix (invoked w) (invoked (step_youtube env rs v meta w))"
  by (auto simp: step_youtube_def Let_def split: prod.splits sum.splits option.splits)

lemma step_rss_prefix:
  "prefix (publish_log w) (publish_log (step_rss env rs meta w))"
  "prefix (invoked w) (invoked (step_rss env rs meta w))"
  by (auto simp: step_rss_def Let_def split: prod.splits sum.splits option.splits)

lemma step_audio_appended:
  "e \<in> set (appended w (fst (step_audio env rs v w))) \<Longrightarrow>
     e_step e = ''audio'' \<and> e_status e \<in> statuses \<and> ''audio'' \<in> set rs"
  by (auto simp: step_audio_def appended_def statuses_def Let_def
      split: prod.splits sum.splits option.splits if_splits)

lemma step_transcript_appended:
  "e \<in> set (appended w (step_transcript env rs w)) \<Longrightarrow>
     e_step e = ''transcript'' \<and> e_status e \<in> statuses \<and> ''transcript'' \<in> set rs"
  by (auto simp: step_transcript_def appended_def statuses_def Let_def
      split: prod.splits sum.splits option.splits if_splits)

lemma step_show_notes_appended:
  "e \<in> set (appended w (step_show_notes env rs meta w)) \<Longrightarrow>
     e_step e = ''show_notes'' \<and> e_status e \<in> statuses \<and> ''show_notes'' \<in> set rs"
  by (auto simp: step_show_notes_def appended_def statuses_def Let_def
      split: prod.splits sum.splits option.splits if_splits)

lemma step_youtube_appended:
  "e \<in> set (appended w (step_youtube env rs v meta w)) \<Longrightarrow>
     e_step e = ''youtube'' \<and> e_status e \<in> statuses \<and> ''youtube'' \<in> set rs \<and> m_publish_youtube meta"
  by (auto simp: step_youtube_def appended_def statuses_def Let_def
      split: prod.splits sum.splits option.splits if_splits)

lemma step_rss_appended:
  "e \<in> set (appended w (step_rss env rs meta w)) \<Longrightarrow>
     e_step e = ''rss'' \<and> e_status e \<in> statuses \<and> ''rss'' \<in> set rs \<and>
     (m_publish_spotify meta \<or> m_publish_apple meta)"
  by (auto simp: step_rss_def appended_def statuses_def Let_def
      split: prod.splits sum.splits option.splits if_splits)

lemma step_audio_calls:
  "c \<in> set (new_calls w (fst (step_audio env rs v w))) \<Longrightarrow> c = ''audio'' \<and> ''audio'' \<in> set rs"
  by (auto simp: step_audio_def new_calls_def Let_def split: prod.splits sum.splits option.splits if_splits)

lemma step_transcript_calls:
  "c \<in> set (new_calls w (step_transcript env rs w)) \<Longrightarrow> c = ''transcript'' \<and> ''transcript'' \<in> set rs"
  by (auto simp: step_transcript_def new_calls_def Let_def split: prod.splits sum.splits option.splits if_splits)

lemma step_show_notes_calls:
  "c \<in> set (new_calls w (step_show_notes env rs meta w)) \<Longrightarrow>
     c = ''show_notes'' \<and> ''show_notes'' \<in> set rs"
  by (auto simp: step_show_notes_def new_calls_def Let_def split: prod.splits sum.splits option.splits if_splits)

lemma step_youtube_calls:
  "c \<in> set (new_calls w (step_youtube env rs v meta w)) \<Longrightarrow>
     c = ''youtube'' \<and> ''youtube'' \<in> set rs \<and> m_publish_youtube meta"
  by (auto simp: step_youtube_def new_calls_def Let_def split: prod.splits sum.splits option.splits if_splits)

lemma step_rss_calls:
  "c \<in> set (new_calls w (step_rss env rs meta w)) \<Longrightarrow>
     c = ''rss'' \<and> ''rss'' \<in> set rs \<and> (m_publish_spotify meta \<or> m_publish_apple meta)"
  by (auto simp: step_rss_def new_calls_def Let_def split: prod.splits sum.splits option.splits if_splits)

lemma step_audio_evaluated:
  "''audio'' \<in> set rs \<Longrightarrow> appended w (fst (step_audio env rs v w)) \<noteq> []"
  by (auto simp: step_audio_def appended_def Let_def split: prod.splits sum.splits option.splits)

lemma step_transcript_evaluated:
  "''transcript'' \<in> set rs \<Longrightarrow> appended w (step_transcript env rs w) \<noteq> []"
  by (auto simp: step_transcript_def appended_def Let_def split: prod.splits sum.splits option.splits)

lemma step_show_notes_evaluated:
  "''show_notes'' \<in> set rs \<Longrightarrow> appended w (step_show_notes env rs meta w) \<noteq> []"
  by (auto simp: step_show_notes_def appended_def Let_def split: prod.splits sum.splits option.splits)

lemma step_youtube_evaluated:
  "''youtube'' \<in> set rs \<Longrightarrow> m_publish_youtube meta \<Longrightarrow>
     appended w (step_youtube env rs v meta w) \<noteq> []"
  by (auto simp: step_youtube_def appended_def Let_def split: prod.splits sum.splits option.splits)

lemma step_rss_evaluated:
  "''rss'' \<in> set rs \<Longrightarrow> m_publish_spotify meta \<or> m_publish_apple meta \<Longrightarrow>
     appended w (step_rss env rs meta w) \<noteq> []"
  by (auto simp: step_rss_def appended_def Let_def split: prod.splits sum.splits option.splits)

lemma step_metadata [simp]:
  "metadata_toml (fst (step_audio env rs v w)) = metadata_toml w"
  "metadata_toml (step_transcript env rs w) = metadata_toml w"
  "metadata_toml (step_show_notes env rs meta w) = metadata_toml w"
  "metadata_toml (step_youtube env rs v meta w) = metadata_toml w"
  "metadata_toml (step_rss env rs meta w) = metadata_toml w"
  by (auto simp: step_defs Let_def split: prod.splits sum.splits option.splits)

lemma outcomes_self [simp]: "outcomes w w = []"
  by (simp add: outcomes_def)

lemma outcomes_trans:
  assumes "prefix (publish_log w) (publish_log w1)" and "prefix (publish_log w1) (publish_log w2)"
  shows "outcomes w w2 = outcomes w w1 @ outcomes w1 w2"
  by (simp add: outcomes_def appended_trans [OF assms])

lemma step_audio_outcomes:
  "outcomes w (fst (step_audio env rs v w)) =
     (if ''audio'' \<in> set rs then
        if files w v = None
        then [(''audio'', ''SKIP'', ''No video file: '' @ path_name (joinpath (episode_dir env) v))]
        else if files w ''audio.mp3'' \<noteq> None then [(''audio'', ''SKIP'', ''audio.mp3 already exists'')]
        else [(''audio'', ''START'', ''Extracting from '' @ path_name (joinpath (episode_dir env) v)),
              (case snd (exec_audio env v ''audio.mp3'' (files w)) of
                 Inl msg \<Rightarrow> (''audio'', ''FAIL'', msg)
               | Inr u \<Rightarrow>
                   (case fst (exec_audio env v ''audio.mp3'' (files w)) ''audio.mp3'' of
                      None \<Rightarrow> (''audio'', ''FAIL'', stat_error env ''audio.mp3'')
                    | Some sz \<Rightarrow> (''audio'', ''DONE'', fmt_mb env sz)))]
      else [])"
  by (auto simp: step_audio_def outcomes_def appended_def entry_view_def Let_def
      split: prod.splits sum.splits option.splits)

lemma step_audio_returned:
  "snd (step_audio env rs v w) \<longleftrightarrow>
     ''audio'' \<in> set rs \<and> files w v \<noteq> None \<and> files w ''audio.mp3'' = None \<and>
     (case snd (exec_audio env v ''audio.mp3'' (files w)) of
        Inl msg \<Rightarrow> True
      | Inr u \<Rightarrow> fst (exec_audio env v ''audio.mp3'' (files w)) ''audio.mp3'' = None)"
  by (auto simp: step_audio_def Let_def split: prod.splits sum.splits option.splits)

lemma step_transcript_outcomes:
  "outcomes w (step_transcript env rs w) =
     (if ''transcript'' \<in> set rs then
        if files w ''transcript.md'' \<noteq> None then
          [(''transcript'', ''SKIP'', ''transcript.md already exists'')]
        else if files w ''audio.mp3'' = None then [(''transcript'', ''SKIP'', ''No audio.mp3 yet'')]
        else [(''transcript'', ''START'', ''Transcribing with Whisper''),
              (case snd (exec_transcript env ''audio.mp3'' ''transcript.md'' (files w)) of
                 Inl msg \<Rightarrow> (''transcript'', ''FAIL'', msg)
               | Inr u \<Rightarrow>
                   (case fst (exec_transcript env ''audio.mp3'' ''transcript.md'' (files w))
                           ''transcript.md'' of
                      None \<Rightarrow> (''transcript'', ''FAIL'', stat_error env ''transcript.md'')
                    | Some sz \<Rightarrow> (''transcript'', ''DONE'', fmt_kb env sz)))]
      else [])"
  by (auto simp: step_transcript_def outcomes_def appended_def entry_view_def Let_def
      split: prod.splits sum.splits option.splits)

lemma step_show_notes_outcomes:
  "outcomes w (step_show_notes env rs meta w) =
     (if ''show_notes'' \<in> set rs then
        if files w ''show-notes.md'' \<noteq> None then
          [(''show_notes'', ''SKIP'', ''show-notes.md already exists'')]
        else if files w ''transcript.md'' = None then [(''show_notes'', ''SKIP'', ''No transcript yet'')]
        else [(''show_notes'', ''START'', ''Generating with Claude''),
              (case snd (exec_show_notes env ''transcript.md'' ''show-notes.md'' meta (files w)) of
                 Inl msg \<Rightarrow> (''show_notes'', ''FAIL'', msg)
               | Inr u \<Rightarrow>
                   (case fst (exec_show_notes env ''transcript.md'' ''show-notes.md'' meta (files w))
                           ''show-notes.md'' of
                      None \<Rightarrow> (''show_notes'', ''FAIL'', stat_error env ''show-notes.md'')
                    | Some sz \<Rightarrow> (''show_notes'', ''DONE'', fmt_kb env sz)))]
      else [])"
  by (auto simp: step_show_notes_def outcomes_def appended_def entry_view_def Let_def
      split: prod.splits sum.splits option.splits)

lemma step_youtube_outcomes:
  "outcomes w (step_youtube env rs v meta w) =
     (if ''youtube'' \<in> set rs \<and> m_publish_youtube meta then
        if files w v = None then [(''youtube'', ''SKIP'', ''No video file'')]
        else [(''youtube'', ''START'', ''Uploading to YouTube''),
              (case snd (exec_youtube env v meta (files w)) of
                 Inl msg \<Rightarrow> (''youtube'', ''FAIL'', msg)
               | Inr yt_url \<Rightarrow> (''youtube'', ''DONE'', yt_url))]
      else [])"
  by (auto simp: step_youtube_def outcomes_def appended_def entry_view_def Let_def
      split: prod.splits sum.splits option.splits)

lemma step_rss_outcomes:
  "outcomes w (step_rss env rs meta w) =
     (if ''rss'' \<in> set rs \<and> (m_publish_spotify meta \<or> m_publish_apple meta) then
        if files w ''audio.mp3'' = None then [(''rss'', ''SKIP'', ''No audio file'')]
        else [(''rss'', ''START'', ''Updating RSS feed''),
              (case snd (exec_rss env ''audio.mp3'' meta (files w)) of
                 Inl msg \<Rightarrow> (''rss'', ''FAIL'', msg)
               | Inr feed_url \<Rightarrow> (''rss'', ''DONE'', feed_url))]
      else [])"
  by (auto simp: step_rss_def outcomes_def appended_def entry_view_def Let_def
      split: prod.splits sum.splits option.splits)

lemma step_youtube_new_calls:
  "new_calls w (step_youtube env rs v meta w) =
     (if ''youtube'' \<in> set rs \<and> m_publish_youtube meta \<and> files w v \<noteq> None then [''youtube''] else [])"
  by (auto simp: step_youtube_def new_calls_def Let_def split: prod.splits sum.splits option.splits)

lemma step_rss_new_calls:
  "new_calls w (step_rss env rs meta w) =
     (if ''rss'' \<in> set rs \<and> (m_publish_spotify meta \<or> m_publish_apple meta) \<and>
         files w ''audio.mp3'' \<noteq> None then [''rss''] else [])"
  by (auto simp: step_rss_def new_calls_def Let_def split: prod.splits sum.splits option.splits)

lemma step_audio_new_calls:
  "new_calls w (fst (step_audio env rs v w)) =
     (if ''audio'' \<in> set rs \<and> files w v \<noteq> None \<and> files w ''audio.mp3'' = None then [''audio'']
      else [])"
  by (auto simp: step_audio_def new_calls_def Let_def split: prod.splits sum.splits option.splits)

lemma step_transcript_new_calls:
  "new_calls w (step_transcript env rs w) =
     (if ''transcript'' \<in> set rs \<and> files w ''transcript.md'' = None \<and> files w ''audio.mp3'' \<noteq> None
      then [''transcript''] else [])"
  by (auto simp: step_transcript_def new_calls_def Let_def split: prod.splits sum.splits option.splits)

lemma step_show_notes_new_calls:
  "new_calls w (step_show_notes env rs meta w) =
     (if ''show_notes'' \<in> set rs \<and> files w ''show-notes.md'' = None \<and> files w ''transcript.md'' \<noteq> None
      then [''show_notes''] else [])"
  by (auto simp: step_show_notes_def new_calls_def Let_def split: prod.splits sum.splits option.splits)

lemma step_audio_files:
  "files (fst (step_audio env rs v w)) =
     (if ''audio'' \<in> set rs \<and> files w v \<noteq> None \<and> files w ''audio.mp3'' = None
      then fst (exec_audio env v ''audio.mp3'' (files w)) else files w)"
  by (auto simp: step_audio_def Let_def split: prod.splits sum.splits option.splits)




subsection \<open>The five steps in sequence\<close>

lemma run_pipeline_returned:
  "snd (step_audio env rs (video_name meta) w) \<Longrightarrow>
     run_pipeline env rs meta w = fst (step_audio env rs (video_name meta) w)"
  by (cases "step_audio env rs (video_name meta) w") (simp add: run_pipeline_def Let_def)

lemma run_pipeline_continued:
  "\<not> snd (step_audio env rs (video_name meta) w) \<Longrightarrow>
     run_pipeline env rs meta w =
       step_rss env rs meta
         (step_youtube env rs (video_name meta) meta
           (step_show_notes env rs meta
             (step_transcript env rs (fst (step_audio env rs (video_name meta) w)))))"
  by (cases "step_audio env rs (video_name meta) w") (simp add: run_pipeline_def Let_def)

lemma run_pipeline_segments:
  assumes "w1 = fst (step_audio env rs v w)"
    and "w2 = step_transcript env rs w1"
    and "w3 = step_show_notes env rs meta w2"
    and "w4 = step_youtube env rs v meta w3"
    and "w5 = step_rss env rs meta w4"
  shows "appended w w5 =
           appended w w1 @ appended w1 w2 @ appended w2 w3 @ appended w3 w4 @ appended w4 w5"
    and "new_calls w w5 =
           new_calls w w1 @ new_calls w1 w2 @ new_calls w2 w3 @ new_calls w3 w4 @ new_calls w4 w5"
    and "prefix (publish_log w) (publish_log w5)"
    and "prefix (invoked w) (invoked w5)"
proof -
  have p1: "prefix (publish_log w) (publish_log w1)" "prefix (invoked w) (invoked w1)"
    unfolding assms by (rule step_audio_prefix)+
  have p2: "prefix (publish_log w1) (publish_log w2)" "prefix (invoked w1) (invoked w2)"
    unfolding assms by (rule step_transcript_prefix)+
  have p3: "prefix (publish_log w2) (publish_log w3)" "prefix (invoked w2) (invoked w3)"
    unfolding assms by (rule step_show_notes_prefix)+
  have p4: "prefix (publish_log w3) (publish_log w4)" "prefix (invoked w3) (invoked w4)"
    unfolding assms by (rule step_youtube_prefix)+
  have p5: "prefix (publish_log w4) (publish_log w5)" "prefix (invoked w4) (invoked w5)"
    unfolding assms by (rule step_rss_prefix)+
  have q4: "prefix (publish_log w3) (publish_log w5)" "prefix (invoked w3) (invoked w5)"
    using p4 p5 by (blast intro: prefix_order.trans)+
  have q3: "prefix (publish_log w2) (publish_log w5)" "prefix (invoked w2) (invoked w5)"
    using p3 q4 by (blast intro: prefix_order.trans)+
  have q2: "prefix (publish_log w1) (publish_log w5)" "prefix (invoked w1) (invoked w5)"
    using p2 q3 by (blast intro: prefix_order.trans)+
  show "prefix (publish_log w) (publish_log w5)" "prefix (invoked w) (invoked w5)"
    using p1 q2 by (blast intro: prefix_order.trans)+
  show "appended w w5 =
           appended w w1 @ appended w1 w2 @ appended w2 w3 @ appended w3 w4 @ appended w4 w5"
    by (simp add: appended_trans [OF p1(1) q2(1)] appended_trans [OF p2(1) q3(1)]
        appended_trans [OF p3(1) q4(1)] appended_trans [OF p4(1) p5(1)])
  show "new_calls w w5 =
           new_calls w w1 @ new_calls w1 w2 @ new_calls w2 w3 @ new_calls w3 w4 @ new_calls w4 w5"
    by (simp add: new_calls_trans [OF p1(2) q2(2)] new_calls_trans [OF p2(2) q3(2)]
        new_calls_trans [OF p3(2) q4(2)] new_calls_trans [OF p4(2) p5(2)])
qed

subsection \<open>publish_episode\<close>

lemma publish_episode_ok:
  assumes "metadata_toml w = Parsed meta" and "m_episode meta = Some ep" and "ep_title ep = Some title"
  shows "publish_episode env steps w = (run_pipeline env (run_steps_of steps) meta w, Inr ())"
  using assms by (simp add: publish_episode_def load_metadata_def)

lemma publish_episode_cases:
  "fst (publish_episode env steps w) = w \<or>
   (\<exists>meta. metadata_toml w = Parsed meta \<and>
      fst (publish_episode env steps w) = run_pipeline env (run_steps_of steps) meta w)"
  by (auto simp: publish_episode_def load_metadata_def split: meta_file.splits option.splits)

lemma run_pipeline_appended_steps:
  assumes "e \<in> set (appended w (run_pipeline env rs meta w))"
  shows "e_step e \<in> set rs \<and> e_step e \<in> set all_steps \<and> e_status e \<in> statuses \<and>
         (e_step e = ''youtube'' \<longrightarrow> m_publish_youtube meta) \<and>
         (e_step e = ''rss'' \<longrightarrow> m_publish_spotify meta \<or> m_publish_apple meta)"
proof (cases "snd (step_audio env rs (video_name meta) w)")
  case True
  with assms have "e \<in> set (appended w (fst (step_audio env rs (video_name meta) w)))"
    by (simp add: run_pipeline_returned)
  from step_audio_appended [OF this] show ?thesis
    by (simp add: all_steps_def)
next
  case False
  define w1 where "w1 = fst (step_audio env rs (video_name meta) w)"
  define w2 where "w2 = step_transcript env rs w1"
  define w3 where "w3 = step_show_notes env rs meta w2"
  define w4 where "w4 = step_youtube env rs (video_name meta) meta w3"
  define w5 where "w5 = step_rss env rs meta w4"
  have "run_pipeline env rs meta w = w5"
    by (simp add: run_pipeline_continued [OF False] w1_def w2_def w3_def w4_def w5_def)
  with assms run_pipeline_segments(1) [OF w1_def w2_def w3_def w4_def w5_def]
  consider "e \<in> set (appended w w1)" | "e \<in> set (appended w1 w2)" | "e \<in> set (appended w2 w3)"
    | "e \<in> set (appended w3 w4)" | "e \<in> set (appended w4 w5)"
    by auto
  then show ?thesis
  proof cases
    case 1
    from step_audio_appended [OF this [unfolded w1_def]] show ?thesis
      by (simp add: all_steps_def)
  next
    case 2
    from step_transcript_appended [OF this [unfolded w2_def]] show ?thesis
      by (simp add: all_steps_def)
  next
    case 3
    from step_show_notes_appended [OF this [unfolded w3_def]] show ?thesis
      by (simp add: all_steps_def)
  next
    case 4
    from step_youtube_appended [OF this [unfolded w4_def]] show ?thesis
      by (simp add: all_steps_def)
  next
    case 5
    from step_rss_appended [OF this [unfolded w5_def]] show ?thesis
      by (simp add: all_steps_def)
  qed
qed

lemma run_pipeline_new_calls_steps:
  assumes "c \<in> set (new_calls w (run_pipeline env rs meta w))"
  shows "c \<in> set rs \<and> c \<in> set all_steps \<and>
         (c = ''youtube'' \<longrightarrow> m_publish_youtube meta) \<and>
         (c = ''rss'' \<longrightarrow> m_publish_spotify meta \<or> m_publish_apple meta)"
proof (cases "snd (step_audio env rs (video_name meta) w)")
  case True
  with assms have "c \<in> set (new_calls w (fst (step_audio env rs (video_name meta) w)))"
    by (simp add: run_pipeline_returned)
  from step_audio_calls [OF this] show ?thesis
    by (simp add: all_steps_def)
next
  case False
  define w1 where "w1 = fst (step_audio env rs (video_name meta) w)"
  define w2 where "w2 = step_transcript env rs w1"
  define w3 where "w3 = step_show_notes env rs meta w2"
  define w4 where "w4 = step_youtube env rs (video_name meta) meta w3"
  define w5 where "w5 = step_rss env rs meta w4"
  have "run_pipeline env rs meta w = w5"
    by (simp add: run_pipeline_continued [OF False] w1_def w2_def w3_def w4_def w5_def)
  with assms run_pipeline_segments(2) [OF w1_def w2_def w3_def w4_def w5_def]
  consider "c \<in> set (new_calls w w1)" | "c \<in> set (new_calls w1 w2)" | "c \<in> set (new_calls w2 w3)"
    | "c \<in> set (new_calls w3 w4)" | "c \<in> set (new_calls w4 w5)"
    by auto
  then show ?thesis
  proof cases
    case 1
    from step_audio_calls [OF this [unfolded w1_def]] show ?thesis
      by (simp add: all_steps_def)
  next
    case 2
    from step_transcript_calls [OF this [unfolded w2_def]] show ?thesis
      by (simp add: all_steps_def)
  next
    case 3
    from step_show_notes_calls [OF this [unfolded w3_def]] show ?thesis
      by (simp add: all_steps_def)
  next
    case 4
    from step_youtube_calls [OF this [unfolded w4_def]] show ?thesis
      by (simp add: all_steps_def)
  next
    case 5
    from step_rss_calls [OF this [unfolded w5_def]] show ?thesis
      by (simp add: all_steps_def)
  qed
qed

subsection \<open>Order of the records and the requested steps\<close>

lemma run_pipeline_metadata [simp]:
  "metadata_toml (run_pipeline env rs meta w) = metadata_toml w"
  by (cases "snd (step_audio env rs (video_name meta) w)")
    (simp_all add: run_pipeline_returned run_pipeline_continued)

lemma step_pos_simps [simp]:
  "step_pos ''audio'' = 0" "step_pos ''transcript'' = 1" "step_pos ''show_notes'' = 2"
  "step_pos ''youtube'' = 3" "step_pos ''rss'' = 4"
  by (simp_all add: step_pos_def all_steps_def)

lemma sorted_wrt_const:
  fixes f :: "'a \<Rightarrow> nat"
  shows "\<forall>e \<in> set xs. f e = k \<Longrightarrow> sorted_wrt (\<lambda>x y. f x \<le> f y) xs"
  by (induction xs) auto

lemma sorted_segments:
  fixes f :: "'a \<Rightarrow> nat"
  assumes "\<forall>e \<in> set a. f e = 0" and "\<forall>e \<in> set t. f e = 1" and "\<forall>e \<in> set s. f e = 2"
    and "\<forall>e \<in> set y. f e = 3" and "\<forall>e \<in> set r. f e = 4"
  shows "sorted (map f (a @ t @ s @ y @ r))"
  using assms sorted_wrt_const [OF assms(1)] sorted_wrt_const [OF assms(2)]
    sorted_wrt_const [OF assms(3)] sorted_wrt_const [OF assms(4)] sorted_wrt_const [OF assms(5)]
  by (auto simp: sorted_map sorted_wrt_append)

lemma run_pipeline_sorted:
  "sorted (map (step_pos \<circ> e_step) (appended w (run_pipeline env rs meta w))) \<and>
   sorted (map step_pos (new_calls w (run_pipeline env rs meta w)))"
proof -
  define v where "v = video_name meta"
  define w1 where "w1 = fst (step_audio env rs v w)"
  define w2 where "w2 = step_transcript env rs w1"
  define w3 where "w3 = step_show_notes env rs meta w2"
  define w4 where "w4 = step_youtube env rs v meta w3"
  define w5 where "w5 = step_rss env rs meta w4"
  note seg = run_pipeline_segments [OF w1_def w2_def w3_def w4_def w5_def]
  have a1: "\<forall>e \<in> set (appended w w1). (step_pos \<circ> e_step) e = 0"
    unfolding w1_def by (intro ballI, drule step_audio_appended, simp)
  have a2: "\<forall>c \<in> set (new_calls w w1). step_pos c = 0"
    unfolding w1_def by (intro ballI, drule step_audio_calls, simp)
  have t1: "\<forall>e \<in> set (appended w1 w2). (step_pos \<circ> e_step) e = 1"
    unfolding w2_def by (intro ballI, drule step_transcript_appended, simp)
  have t2: "\<forall>c \<in> set (new_calls w1 w2). step_pos c = 1"
    unfolding w2_def by (intro ballI, drule step_transcript_calls, simp)
  have s1: "\<forall>e \<in> set (appended w2 w3). (step_pos \<circ> e_step) e = 2"
    unfolding w3_def by (intro ballI, drule step_show_notes_appended, simp)
  have s2: "\<forall>c \<in> set (new_calls w2 w3). step_pos c = 2"
    unfolding w3_def by (intro ballI, drule step_show_notes_calls, simp)
  have y1: "\<forall>e \<in> set (appended w3 w4). (step_pos \<circ> e_step) e = 3"
    unfolding w4_def by (intro ballI, drule step_youtube_appended, simp)
  have y2: "\<forall>c \<in> set (new_calls w3 w4). step_pos c = 3"
    unfolding w4_def by (intro ballI, drule step_youtube_calls, simp)
  have r1: "\<forall>e \<in> set (appended w4 w5). (step_pos \<circ> e_step) e = 4"
    unfolding w5_def by (intro ballI, drule step_rss_appended, simp)
  have r2: "\<forall>c \<in> set (new_calls w4 w5). step_pos c = 4"
    unfolding w5_def by (intro ballI, drule step_rss_calls, simp)
  show ?thesis
  proof (cases "snd (step_audio env rs (video_name meta) w)")
    case True
    have "sorted (map (step_pos \<circ> e_step) (appended w w1 @ [] @ [] @ [] @ []))"
      by (rule sorted_segments [OF a1]) simp_all
    moreover have "sorted (map step_pos (new_calls w w1 @ [] @ [] @ [] @ []))"
      by (rule sorted_segments [OF a2]) simp_all
    moreover have "run_pipeline env rs meta w = w1"
      using True by (simp add: run_pipeline_returned w1_def v_def)
    ultimately show ?thesis
      by (simp del: map_map)
  next
    case False
    have "sorted (map (step_pos \<circ> e_step) (appended w w5))"
      unfolding seg(1) by (rule sorted_segments [OF a1 t1 s1 y1 r1])
    moreover have "sorted (map step_pos (new_calls w w5))"
      unfolding seg(2) by (rule sorted_segments [OF a2 t2 s2 y2 r2])
    moreover have "run_pipeline env rs meta w = w5"
      using False by (simp add: run_pipeline_continued w1_def w2_def w3_def w4_def w5_def v_def)
    ultimately show ?thesis
      by (simp del: map_map)
  qed
qed

lemma step_cong:
  assumes "set xs = set ys"
  shows "step_audio env xs = step_audio env ys"
    and "step_transcript env xs = step_transcript env ys"
    and "step_show_notes env xs = step_show_notes env ys"
    and "step_youtube env xs = step_youtube env ys"
    and "step_rss env xs = step_rss env ys"
proof -
  show "step_audio env xs = step_audio env ys"
    by (rule ext)+ (simp only: step_audio_def assms)
  show "step_transcript env xs = step_transcript env ys"
    by (rule ext)+ (simp only: step_transcript_def assms)
  show "step_show_notes env xs = step_show_notes env ys"
    by (rule ext)+ (simp only: step_show_notes_def assms)
  show "step_youtube env xs = step_youtube env ys"
    by (rule ext)+ (simp only: step_youtube_def assms)
  show "step_rss env xs = step_rss env ys"
    by (rule ext)+ (simp only: step_rss_def assms)
qed

lemma run_pipeline_cong:
  "set xs = set ys \<Longrightarrow> run_pipeline env xs = run_pipeline env ys"
  by (rule ext)+ (simp only: run_pipeline_def step_cong [of xs ys])

lemma run_steps_of_cong:
  "set xs = set ys \<Longrightarrow> set (run_steps_of (Some xs)) = set (run_steps_of (Some ys))"
  by (cases "xs = []") (auto simp: run_steps_of_def)

lemma publish_episode_cong:
  assumes "set xs = set ys"
  shows "publish_episode env (Some xs) w = publish_episode env (Some ys) w"
  unfolding publish_episode_def
  by (simp only: run_pipeline_cong [OF run_steps_of_cong [OF assms]])

lemma run_pipeline_evaluated:
  assumes "\<not> snd (step_audio env rs (video_name meta) w)" and "s \<in> set rs" and "s \<in> set all_steps"
    and "s = ''youtube'' \<longrightarrow> m_publish_youtube meta"
    and "s = ''rss'' \<longrightarrow> m_publish_spotify meta \<or> m_publish_apple meta"
  shows "s \<in> e_step ` set (appended w (run_pipeline env rs meta w))"
proof -
  define v where "v = video_name meta"
  define w1 where "w1 = fst (step_audio env rs v w)"
  define w2 where "w2 = step_transcript env rs w1"
  define w3 where "w3 = step_show_notes env rs meta w2"
  define w4 where "w4 = step_youtube env rs v meta w3"
  define w5 where "w5 = step_rss env rs meta w4"
  note seg = run_pipeline_segments(1) [OF w1_def w2_def w3_def w4_def w5_def]
  have run: "run_pipeline env rs meta w = w5"
    using assms(1) by (simp add: run_pipeline_continued w1_def w2_def w3_def w4_def w5_def v_def)
  have nonempty: "\<And>es. es \<noteq> [] \<Longrightarrow> \<forall>e \<in> set es. e_step e = s \<Longrightarrow> s \<in> e_step ` set es"
    by (metis image_eqI last_in_set)
  from assms(3) consider "s = ''audio''" | "s = ''transcript''" | "s = ''show_notes''"
    | "s = ''youtube''" | "s = ''rss''"
    by (auto simp: all_steps_def)
  then have "s \<in> e_step ` set (appended w w5)"
  proof cases
    case 1
    with assms(2) have "s \<in> e_step ` set (appended w w1)"
      unfolding w1_def by (intro nonempty step_audio_evaluated) (auto dest: step_audio_appended)
    then show ?thesis by (auto simp: seg)
  next
    case 2
    with assms(2) have "s \<in> e_step ` set (appended w1 w2)"
      unfolding w2_def by (intro nonempty step_transcript_evaluated) (auto dest: step_transcript_appended)
    then show ?thesis by (auto simp: seg)
  next
    case 3
    with assms(2) have "s \<in> e_step ` set (appended w2 w3)"
      unfolding w3_def by (intro nonempty step_show_notes_evaluated) (auto dest: step_show_notes_appended)
    then show ?thesis by (auto simp: seg)
  next
    case 4
    with assms(2,4) have "s \<in> e_step ` set (appended w3 w4)"
      unfolding w4_def by (intro nonempty step_youtube_evaluated) (auto dest: step_youtube_appended)
    then show ?thesis by (auto simp: seg)
  next
    case 5
    with assms(2,5) have "s \<in> e_step ` set (appended w4 w5)"
      unfolding w5_def by (intro nonempty step_rss_evaluated) (auto dest: step_rss_appended)
    then show ?thesis by (auto simp: seg)
  qed
  with run show ?thesis by simp
qed

lemma run_pipeline_outcomes:
  assumes "w1 = fst (step_audio env rs v w)"
    and "w2 = step_transcript env rs w1"
    and "w3 = step_show_notes env rs meta w2"
    and "w4 = step_youtube env rs v meta w3"
    and "w5 = step_rss env rs meta w4"
  shows "outcomes w w5 =
           outcomes w w1 @ outcomes w1 w2 @ outcomes w2 w3 @ outcomes w3 w4 @ outcomes w4 w5"
  by (simp add: outcomes_def run_pipeline_segments(1) [OF assms])

lemma outcomes_steps:
  "(\<forall>e \<in> set (appended w w'). e_step e = s) \<Longrightarrow> \<forall>x \<in> set (outcomes w w'). fst x = s"
  by (simp add: outcomes_def entry_view_def)

lemma outcomes_evaluated:
  "appended w w' \<noteq> [] \<Longrightarrow> outcomes w w' \<noteq> []"
  by (simp add: outcomes_def)

subsection \<open>Evaluating the examples\<close>

lemmas run_defs = publish_episode_def load_metadata_def run_pipeline_def run_steps_of_def
  video_name_def step_defs log_progress_def outcomes_def appended_def new_calls_def entry_view_def
  all_steps_def Let_def

lemma show_nat_numeral:
  "show_nat (numeral k) =
     (if (numeral k :: nat) < 10 then [digit (numeral k)]
      else show_nat (numeral k div 10) @ [digit (numeral k mod 10)])"
  by (rule show_nat.simps)

lemma show_nat_small: "show_nat 0 = ''0''" "show_nat 1 = ''1''" "show_nat (Suc 0) = ''1''"
  by (simp_all add: show_nat.simps digit_def)

lemma replicate_numeral_unfold: "replicate (numeral k) x = x # replicate (pred_numeral k) x"
  by (simp add: numeral_eq_Suc)

lemma path_name_examples:
  "path_name (joinpath ''/podcast/episodes/ep001'' ''video.mp4'') = ''video.mp4''"
  "path_name (joinpath ''/podcast/episodes/ep001'' ''show-notes.md'') = ''show-notes.md''"
  "path_name (joinpath ''/podcast/episodes/ep001'' ''raw/video.mp4'') = ''video.mp4''"
  by (simp_all add: path_name_def joinpath_def)

lemma audio_detail_examples:
  "path_name (joinpath (episode_dir env_ok) ''video.mp4'') = ''video.mp4''"
  "path_name (joinpath (episode_dir env_failing) ''video.mp4'') = ''video.mp4''"
  "path_name (joinpath (episode_dir env_ffmpeg_bad) ''video.mp4'') = ''video.mp4''"
  by (simp_all add: env_ok_def env_failing_def env_ffmpeg_bad_def path_name_examples)

lemmas example_defs = env_ok_def env_failing_def env_ffmpeg_bad_def w_fresh_def w_done_def
  w_gated_def w_nometa_def meta_all_def meta_off_def mb_example_def kb_example_def digit_def
  show_nat_numeral show_nat_small extract_audio_def ffmpeg_bad_def path_name_examples

lemmas world_defs = env_ok_def w_fresh_def w_done_def w_gated_def meta_all_def meta_off_def

lemmas format_defs = format_line_def log_text_def strftime_def pad2_def pad4_def digit_def ljust_def
  clock0_def replicate_numeral_unfold

lemmas rss_defs = update_rss_feed_def load_podcast_config_def rss_executor_def with_episode_files_def
  str_of_error_def website_of_def episode_dirs_def listed_def ws_example_def ws_unconfigured_def
  pc_example_def env_unconfigured_def env_workspace_def

lemma filter_none:
  "\<forall>e \<in> set es. \<not> P e \<Longrightarrow> filter P es = []"
  by (induction es) auto

lemma step_rss_terminal:
  "length (filter (\<lambda>e. e_step e = ''rss'' \<and> e_status e \<noteq> ''START'')
      (appended w (step_rss env rs meta w))) =
     (if ''rss'' \<in> set rs \<and> (m_publish_spotify meta \<or> m_publish_apple meta) then 1 else 0)"
  by (simp add: step_rss_def appended_def Let_def split: prod.splits sum.splits option.splits)


subsection \<open>extract_audio\<close>

lemma extract_audio_raises:
  assumes "d v \<noteq> None" and "ff_returncode (ffmpeg v a d) \<noteq> 0"
  shows "snd (extract_audio ffmpeg ed v a d) = Inl (''ffmpeg failed: '' @ take 500 (ff_stderr (ffmpeg v a d)))"
  using assms by (auto simp: extract_audio_def Let_def)

subsection \<open>The text of a log line\<close>

lemma digit_is_digit [simp]: "is_digit (digit n)"
proof -
  have "n mod 10 < length ''0123456789''"
    by simp
  then have "''0123456789'' ! (n mod 10) \<in> set ''0123456789''"
    by (rule nth_mem)
  then show ?thesis
    by (simp only: is_digit_def digit_def)
qed

lemma utc_timestamp_strftime: "utc_timestamp (strftime dt)"
  by (simp add: utc_timestamp_def strftime_def pad2_def pad4_def)

lemma strftime_chars: "c \<in> set (strftime dt) \<Longrightarrow> is_digit c \<or> c \<in> set ''- :UTC''"
  by (auto simp: strftime_def pad2_def pad4_def)

lemma strftime_no_newline: "newline \<notin> set (strftime dt)"
  using strftime_chars [of newline dt] by (auto simp: is_digit_def newline_def)

lemma ljust_set: "set (ljust n s) \<subseteq> insert (CHR '' '') (set s)"
  by (auto simp: ljust_def)

lemma count_list_notin: "x \<notin> set xs \<Longrightarrow> count_list xs x = 0"
  by (induction xs) auto

lemma format_line_one_line:
  assumes "newline \<notin> set (e_step e)" and "newline \<notin> set (e_status e)" and "newline \<notin> set (e_detail e)"
  shows "count_list (format_line e) newline = 1"
proof -
  have sp: "newline \<noteq> CHR '' ''" "newline \<noteq> CHR ''[''" "newline \<noteq> CHR '']''"
    by (simp_all add: newline_def)
  have "newline \<notin> set (ljust 20 (e_step e))" "newline \<notin> set (ljust 10 (e_status e))"
    using assms(1,2) ljust_set [of 20 "e_step e"] ljust_set [of 10 "e_status e"] sp(1) by auto
  then have "newline \<notin> set (''['' @ strftime (e_ts e) @ ''] '' @ ljust 20 (e_step e) @ '' '' @
      ljust 10 (e_status e) @ '' '' @ e_detail e)"
    using assms(3) strftime_no_newline [of "e_ts e"] sp by simp
  from count_list_notin [OF this] show ?thesis
    by (simp add: format_line_def del: append.simps)
qed

lemma log_text_append: "log_text (es @ fs) = log_text es @ log_text fs"
  by (simp add: log_text_def)

lemma ljust_short: "length s \<le> n \<Longrightarrow> length (ljust n s) = n"
  by (simp add: ljust_def)

lemma run_pipeline_prefix:
  "prefix (publish_log w) (publish_log (run_pipeline env rs meta w))"
proof (cases "snd (step_audio env rs (video_name meta) w)")
  case True
  then show ?thesis
    by (simp add: run_pipeline_returned step_audio_prefix)
next
  case False
  show ?thesis
    unfolding run_pipeline_continued [OF False]
    by (rule run_pipeline_segments(3) [OF refl refl refl refl refl])
qed

lemma publish_episode_prefix:
  "publish_log (fst (publish_episode env steps w)) =
     publish_log w @ appended w (fst (publish_episode env steps w))"
proof -
  have "prefix (publish_log w) (publish_log (fst (publish_episode env steps w)))"
    using publish_episode_cases [of env steps w] run_pipeline_prefix [of w env "run_steps_of steps"]
    by auto
  then show ?thesis
    by (auto simp: appended_def prefix_def)
qed

lemma publish_episode_appended:
  assumes "e \<in> set (appended w (fst (publish_episode env steps w)))"
  shows "e_step e \<in> set all_steps \<and> e_status e \<in> statuses"
proof -
  from publish_episode_cases [of env steps w]
  consider "fst (publish_episode env steps w) = w"
    | meta where "fst (publish_episode env steps w) = run_pipeline env (run_steps_of steps) meta w"
    by auto
  then show ?thesis
  proof cases
    case 1
    with assms show ?thesis by simp
  next
    case 2
    from assms [unfolded 2] show ?thesis
      by (drule_tac run_pipeline_appended_steps) simp
  qed
qed

lemma step_status_facts:
  assumes "s \<in> set all_steps" and "st \<in> statuses"
  shows "length s \<le> 20" and "length st \<le> 10" and "newline \<notin> set s" and "newline \<notin> set st"
  using assms by (auto simp: all_steps_def statuses_def newline_def)

subsection \<open>The reader of the log\<close>

lemma match_rest_status:
  "match_rest r = Some (s, st) \<Longrightarrow> st \<in> {''START'', ''DONE'', ''FAIL''} \<and> s \<noteq> []"
  by (auto simp: match_rest_def Let_def split: if_splits)

lemma match_from_status:
  "match_from r = Some (s, st) \<Longrightarrow> st \<in> {''START'', ''DONE'', ''FAIL''} \<and> s \<noteq> []"
proof (induction r)
  case Nil
  then show ?case by simp
next
  case (Cons c cs)
  show ?case
  proof (cases "c = CHR '']'' \<and> match_rest cs \<noteq> None")
    case True
    with Cons.prems have "match_rest cs = Some (s, st)"
      by auto
    then show ?thesis
      by (rule match_rest_status)
  next
    case False
    with Cons.prems have "match_from cs = Some (s, st)"
      by (auto split: if_splits option.splits)
    then show ?thesis
      by (rule Cons.IH)
  qed
qed

lemma match_line_status:
  "match_line l = Some (s, st) \<Longrightarrow> st \<in> {''START'', ''DONE'', ''FAIL''} \<and> s \<noteq> []"
  by (auto simp: match_line_def split: list.splits if_splits dest: match_from_status)

lemma lower_statuses [simp]:
  "lower ''START'' = ''start''" "lower ''DONE'' = ''done''" "lower ''FAIL'' = ''fail''"
  by (simp_all add: lower_def lower_char_def)

lemma record_line_apply:
  "record_line l m s =
     (if map_option fst (match_line l) = Some s then map_option (lower \<circ> snd) (match_line l)
      else m s)"
  by (auto simp: record_line_def split: option.splits)

lemma last_outcome_snoc:
  "last_outcome (ls @ [l]) s =
     (if map_option fst (match_line l) = Some s then map_option (lower \<circ> snd) (match_line l)
      else last_outcome ls s)"
  by (simp add: last_outcome_def)

lemma fold_record_line:
  "fold record_line ls Map.empty s = last_outcome ls s"
proof (induction ls rule: rev_induct)
  case Nil
  show ?case by (simp add: last_outcome_def)
next
  case (snoc l ls)
  then show ?case
    by (simp add: record_line_apply last_outcome_snoc)
qed

lemma last_outcome_range:
  assumes "last_outcome ls s = Some v"
  shows "v \<in> {''start'', ''done'', ''fail''}"
  using assms
proof (induction ls rule: rev_induct)
  case Nil
  then show ?case by (simp add: last_outcome_def)
next
  case (snoc l ls)
  show ?case
  proof (cases "map_option fst (match_line l) = Some s")
    case True
    with snoc.prems obtain st where m: "match_line l = Some (s, st)" and v: "v = lower st"
      by (auto simp: last_outcome_snoc)
    from match_line_status [OF m] v show ?thesis
      by auto
  next
    case False
    with snoc show ?thesis
      by (simp add: last_outcome_snoc)
  qed
qed

lemma splitlines_from_line:
  assumes "\<forall>c \<in> set l. \<not> is_linebreak c"
  shows "splitlines_from cur (l @ newline # rest) = (rev cur @ l) # splitlines_from [] rest"
  using assms
proof (induction l arbitrary: cur)
  case Nil
  have "is_linebreak newline" "newline \<noteq> CHR 0x0D"
    by (simp_all add: is_linebreak_def newline_def)
  then show ?case by simp
next
  case (Cons c l)
  then have c: "\<not> is_linebreak c" and l: "\<forall>c \<in> set l. \<not> is_linebreak c"
    by simp_all
  have "is_linebreak (CHR 0x0D)"
    by (simp add: is_linebreak_def)
  with c have "c \<noteq> CHR 0x0D"
    by auto
  with c Cons.IH [OF l, of "c # cur"] show ?case
    by simp
qed

lemma format_line_line_of: "format_line e = line_of e @ [newline]"
  by (simp add: format_line_def line_of_def)

lemma splitlines_log_text:
  assumes "\<forall>e \<in> set es. \<forall>c \<in> set (line_of e). \<not> is_linebreak c"
  shows "splitlines (log_text es) = map line_of es"
  using assms
proof (induction es)
  case Nil
  show ?case by (simp add: splitlines_def log_text_def)
next
  case (Cons e es)
  then have e: "\<forall>c \<in> set (line_of e). \<not> is_linebreak c"
    and IH: "splitlines (log_text es) = map line_of es"
    by simp_all
  have "log_text (e # es) = line_of e @ newline # log_text es"
    by (simp add: log_text_def format_line_line_of)
  with splitlines_from_line [OF e, of "[]" "log_text es"] IH show ?case
    by (simp add: splitlines_def)
qed

lemma match_from_none: "CHR '']'' \<notin> set r \<Longrightarrow> match_from r = None"
  by (induction r) auto

lemma match_from_skip:
  "CHR '']'' \<notin> set pre \<Longrightarrow>
     match_from (pre @ CHR '']'' # r) =
       (case match_rest r of Some g \<Rightarrow> Some g | None \<Rightarrow> match_from r)"
  by (induction pre) auto

lemma strftime_no_bracket: "CHR '']'' \<notin> set (strftime dt)"
  using strftime_chars [of "CHR '']''" dt] by (auto simp: is_digit_def)

lemma strftime_no_linebreak: "c \<in> set (strftime dt) \<Longrightarrow> \<not> is_linebreak c"
  by (drule strftime_chars) (auto simp: is_digit_def is_linebreak_def)

lemma word_not_space: "is_word c \<Longrightarrow> \<not> is_space c"
  unfolding is_word_def is_space_def Let_def by arith

lemma takeWhile_hd_stop:
  "xs = [] \<or> \<not> P (hd xs) \<Longrightarrow> takeWhile P xs = []"
  by (cases xs) auto

lemma dropWhile_hd_stop:
  "xs = [] \<or> \<not> P (hd xs) \<Longrightarrow> dropWhile P xs = xs"
  by (cases xs) auto

lemma match_rest_general:
  assumes sp1: "sp1 \<noteq> []" "\<forall>c \<in> set sp1. is_space c"
    and w: "w \<noteq> []" "\<forall>c \<in> set w. is_word c"
    and sp2: "sp2 \<noteq> []" "\<forall>c \<in> set sp2. is_space c"
    and rest: "rest = [] \<or> \<not> is_space (hd rest)"
  shows "match_rest (sp1 @ w @ sp2 @ rest) =
           (if prefix ''START'' rest then Some (w, ''START'')
            else if prefix ''DONE'' rest then Some (w, ''DONE'')
            else if prefix ''FAIL'' rest then Some (w, ''FAIL'')
            else None)"
proof -
  have hw: "\<not> is_space (hd (w @ sp2 @ rest))"
    using w by (cases w) (auto dest: word_not_space)
  have hs: "\<not> is_word (hd (sp2 @ rest))"
    using sp2 by (cases sp2) (auto dest: word_not_space)
  have t1: "takeWhile is_space (sp1 @ w @ sp2 @ rest) = sp1"
    using sp1(2) hw by (simp add: takeWhile_hd_stop)
  have d1: "dropWhile is_space (sp1 @ w @ sp2 @ rest) = w @ sp2 @ rest"
    using sp1(2) hw by (simp add: dropWhile_hd_stop)
  have t2: "takeWhile is_word (w @ sp2 @ rest) = w"
    using w(2) hs by (simp add: takeWhile_hd_stop)
  have d2: "dropWhile is_word (w @ sp2 @ rest) = sp2 @ rest"
    using w(2) hs by (simp add: dropWhile_hd_stop)
  have t3: "takeWhile is_space (sp2 @ rest) = sp2"
    using sp2(2) rest by (simp add: takeWhile_hd_stop)
  have d3: "dropWhile is_space (sp2 @ rest) = rest"
    using sp2(2) rest by (simp add: dropWhile_hd_stop)
  show ?thesis
    unfolding match_rest_def Let_def d1 t1 t2 d2 t3 d3
    using sp1(1) w(1) sp2(1) by simp
qed

subsection \<open>Step names outside the pipeline\<close>

lemma known_steps_set:
  "set (filter (\<lambda>s. s \<in> set all_steps) xs) = set xs \<inter> set all_steps"
  by auto

lemma step_known:
  "step_audio env (filter (\<lambda>s. s \<in> set all_steps) xs) = step_audio env xs"
  "step_transcript env (filter (\<lambda>s. s \<in> set all_steps) xs) = step_transcript env xs"
  "step_show_notes env (filter (\<lambda>s. s \<in> set all_steps) xs) = step_show_notes env xs"
  "step_youtube env (filter (\<lambda>s. s \<in> set all_steps) xs) = step_youtube env xs"
  "step_rss env (filter (\<lambda>s. s \<in> set all_steps) xs) = step_rss env xs"
proof -
  have m: "''audio'' \<in> set all_steps" "''transcript'' \<in> set all_steps"
    "''show_notes'' \<in> set all_steps" "''youtube'' \<in> set all_steps" "''rss'' \<in> set all_steps"
    by (simp_all add: all_steps_def)
  show "step_audio env (filter (\<lambda>s. s \<in> set all_steps) xs) = step_audio env xs"
    by (rule ext)+ (simp only: step_audio_def known_steps_set Int_iff m simp_thms)
  show "step_transcript env (filter (\<lambda>s. s \<in> set all_steps) xs) = step_transcript env xs"
    by (rule ext)+ (simp only: step_transcript_def known_steps_set Int_iff m simp_thms)
  show "step_show_notes env (filter (\<lambda>s. s \<in> set all_steps) xs) = step_show_notes env xs"
    by (rule ext)+ (simp only: step_show_notes_def known_steps_set Int_iff m simp_thms)
  show "step_youtube env (filter (\<lambda>s. s \<in> set all_steps) xs) = step_youtube env xs"
    by (rule ext)+ (simp only: step_youtube_def known_steps_set Int_iff m simp_thms)
  show "step_rss env (filter (\<lambda>s. s \<in> set all_steps) xs) = step_rss env xs"
    by (rule ext)+ (simp only: step_rss_def known_steps_set Int_iff m simp_thms)
qed

lemma run_pipeline_known:
  "run_pipeline env (filter (\<lambda>s. s \<in> set all_steps) xs) meta w = run_pipeline env xs meta w"
  unfolding run_pipeline_def by (simp only: step_known)

lemma filter_all: "\<forall>x \<in> set xs. P x \<Longrightarrow> filter P xs = xs"
  by (induction xs) auto

lemma step_rss_files:
  "files (step_rss env rs meta w) =
     (if ''rss'' \<in> set rs \<and> (m_publish_spotify meta \<or> m_publish_apple meta) \<and>
         files w ''audio.mp3'' \<noteq> None
      then fst (exec_rss env ''audio.mp3'' meta (files w)) else files w)"
  by (auto simp: step_rss_def Let_def split: prod.splits sum.splits option.splits)

lemma step_outcome_names:
  "x \<in> set (outcomes w (fst (step_audio env rs v w))) \<Longrightarrow> fst x = ''audio''"
  "x \<in> set (outcomes w (step_transcript env rs w)) \<Longrightarrow> fst x = ''transcript''"
  "x \<in> set (outcomes w (step_show_notes env rs meta w)) \<Longrightarrow> fst x = ''show_notes''"
  "x \<in> set (outcomes w (step_youtube env rs v meta w)) \<Longrightarrow> fst x = ''youtube''"
  "x \<in> set (outcomes w (step_rss env rs meta w)) \<Longrightarrow> fst x = ''rss''"
proof -
  have a: "\<forall>e \<in> set (appended w (fst (step_audio env rs v w))). e_step e = ''audio''"
    by (intro ballI, drule step_audio_appended, simp)
  have t: "\<forall>e \<in> set (appended w (step_transcript env rs w)). e_step e = ''transcript''"
    by (intro ballI, drule step_transcript_appended, simp)
  have s: "\<forall>e \<in> set (appended w (step_show_notes env rs meta w)). e_step e = ''show_notes''"
    by (intro ballI, drule step_show_notes_appended, simp)
  have y: "\<forall>e \<in> set (appended w (step_youtube env rs v meta w)). e_step e = ''youtube''"
    by (intro ballI, drule step_youtube_appended, simp)
  have r: "\<forall>e \<in> set (appended w (step_rss env rs meta w)). e_step e = ''rss''"
    by (intro ballI, drule step_rss_appended, simp)
  show "x \<in> set (outcomes w (fst (step_audio env rs v w))) \<Longrightarrow> fst x = ''audio''"
    using outcomes_steps [OF a] by blast
  show "x \<in> set (outcomes w (step_transcript env rs w)) \<Longrightarrow> fst x = ''transcript''"
    using outcomes_steps [OF t] by blast
  show "x \<in> set (outcomes w (step_show_notes env rs meta w)) \<Longrightarrow> fst x = ''show_notes''"
    using outcomes_steps [OF s] by blast
  show "x \<in> set (outcomes w (step_youtube env rs v meta w)) \<Longrightarrow> fst x = ''youtube''"
    using outcomes_steps [OF y] by blast
  show "x \<in> set (outcomes w (step_rss env rs meta w)) \<Longrightarrow> fst x = ''rss''"
    using outcomes_steps [OF r] by blast
qed

subsection \<open>What a run without FAIL leaves behind\<close>

lemma only_writes_other: "only_writes f out \<Longrightarrow> name \<noteq> out \<Longrightarrow> fst (f d) name = d name"
  by (simp add: only_writes_def)

lemma only_writes_keeps: "only_writes f out \<Longrightarrow> d out \<noteq> None \<Longrightarrow> fst (f d) out \<noteq> None"
  by (simp add: only_writes_def)

lemma only_writes_present:
  assumes "only_writes f out" and "d name \<noteq> None"
  shows "fst (f d) name \<noteq> None"
proof (cases "name = out")
  case True
  with assms show ?thesis by (simp add: only_writes_keeps)
next
  case False
  with assms show ?thesis by (simp add: only_writes_other)
qed






lemma step_audio_frame:
  assumes "only_writes (exec_audio env v ''audio.mp3'') ''audio.mp3''"
  shows "name \<noteq> ''audio.mp3'' \<Longrightarrow> files (fst (step_audio env rs v w)) name = files w name"
    and "files w name \<noteq> None \<Longrightarrow> files (fst (step_audio env rs v w)) name \<noteq> None"
  using only_writes_other [OF assms] only_writes_present [OF assms]
  by (simp_all add: step_audio_files del: not_None_eq)








section \<open>Claims\<close>

text \<open>
  C6, as amended. When the episode directory has no \<open>metadata.toml\<close>,
  \<open>publish_episode\<close> raises \<open>FileNotFoundError\<close> to its caller before any step: the
  world is as it was, no record is appended and no executor is called. A step name outside
  the five is rejected only on the command line: \<open>main\<close> leaves with \<open>SystemExit(2)\<close>
  from the argument parser before \<open>publish_episode\<close> is called, and passes a request of
  known names on unchanged. \<open>publish_episode\<close> itself does not check the names: called
  with a non-empty request it returns normally and runs exactly the known names of the
  request, ignoring the others.
\<close>

theorem structural_failure_and_step_names:
  "(metadata_toml w = NoFile \<longrightarrow>
      publish_episode env steps w =
        (w, Inl (FileNotFoundError (''No metadata.toml in '' @ episode_dir env))) \<and>
      appended w (fst (publish_episode env steps w)) = [] \<and>
      new_calls w (fst (publish_episode env steps w)) = []) \<and>
   ((\<exists>x \<in> set xs. x \<notin> set all_steps) \<longrightarrow>
      main env (Some xs) w = (w, Inl (SystemExit 2)) \<and>
      appended w (fst (main env (Some xs) w)) = [] \<and>
      new_calls w (fst (main env (Some xs) w)) = []) \<and>
   (xs \<noteq> [] \<and> (\<forall>x \<in> set xs. x \<in> set all_steps) \<longrightarrow>
      main env (Some xs) w = publish_episode env (Some xs) w) \<and>
   (metadata_toml w = Parsed meta \<and> m_episode meta = Some ep \<and> ep_title ep = Some title \<and>
    xs \<noteq> [] \<longrightarrow>
      publish_episode env (Some xs) w =
        (run_pipeline env (filter (\<lambda>s. s \<in> set all_steps) xs) meta w, Inr ()))"
proof (intro conjI impI)
  assume "metadata_toml w = NoFile"
  then show "publish_episode env steps w =
      (w, Inl (FileNotFoundError (''No metadata.toml in '' @ episode_dir env)))"
    by (simp add: publish_episode_def load_metadata_def)
  then show "appended w (fst (publish_episode env steps w)) = []"
    "new_calls w (fst (publish_episode env steps w)) = []"
    by simp_all
next
  assume "\<exists>x \<in> set xs. x \<notin> set all_steps"
  then show "main env (Some xs) w = (w, Inl (SystemExit 2))"
    by (auto simp: main_def step_choices_def all_steps_def)
  then show "appended w (fst (main env (Some xs) w)) = []"
    "new_calls w (fst (main env (Some xs) w)) = []"
    by simp_all
next
  assume "xs \<noteq> [] \<and> (\<forall>x \<in> set xs. x \<in> set all_steps)"
  then show "main env (Some xs) w = publish_episode env (Some xs) w"
    by (auto simp: main_def step_choices_def all_steps_def)
next
  assume "metadata_toml w = Parsed meta \<and> m_episode meta = Some ep \<and> ep_title ep = Some title \<and>
    xs \<noteq> []"
  then have ok: "metadata_toml w = Parsed meta" "m_episode meta = Some ep" "ep_title ep = Some title"
    and xs: "run_steps_of (Some xs) = xs"
    by (simp_all add: run_steps_of_def)
  show "publish_episode env (Some xs) w =
      (run_pipeline env (filter (\<lambda>s. s \<in> set all_steps) xs) meta w, Inr ())"
    unfolding run_pipeline_known publish_episode_ok [OF ok] xs by (rule refl)
qed

theorem structural_failure_and_step_names_witness:
  "metadata_toml w_nometa = NoFile \<and>
   publish_episode env_ok None w_nometa =
     (w_nometa, Inl (FileNotFoundError ''No metadata.toml in /podcast/episodes/ep001'')) \<and>
   ''bogus'' \<in> set [''audio'', ''bogus''] \<and> ''bogus'' \<notin> set all_steps \<and>
   main env_ok (Some [''audio'', ''bogus'']) w_done = (w_done, Inl (SystemExit 2)) \<and>
   metadata_toml w_done = Parsed meta_all \<and>
   publish_episode env_ok (Some [''audio'', ''bogus'']) w_done =
     (run_pipeline env_ok [''audio''] meta_all w_done, Inr ())"
proof -
  have a: "metadata_toml w_nometa = NoFile"
    by (simp add: w_nometa_def)
  have b: "\<exists>x \<in> set [''audio'', ''bogus'']. x \<notin> set all_steps"
    by (simp add: all_steps_def)
  have c: "metadata_toml w_done = Parsed meta_all \<and>
      m_episode meta_all = Some \<lparr>ep_title = Some ''Pilot'', ep_description = None, ep_number = Some ''1''\<rparr> \<and>
      ep_title \<lparr>ep_title = Some ''Pilot'', ep_description = None, ep_number = Some ''1''\<rparr> = Some ''Pilot'' \<and>
      [''audio'', ''bogus''] \<noteq> []"
    by (simp add: w_done_def w_fresh_def meta_all_def)
  note T1 = structural_failure_and_step_names [where w = w_nometa and env = env_ok and steps = None,
      THEN conjunct1, rule_format, OF a, THEN conjunct1]
  note T2 = structural_failure_and_step_names [where w = w_done and env = env_ok
      and xs = "[''audio'', ''bogus'']", THEN conjunct2, THEN conjunct1, rule_format, OF b,
      THEN conjunct1]
  note T3 = structural_failure_and_step_names [where w = w_done and env = env_ok
      and xs = "[''audio'', ''bogus'']", THEN conjunct2, THEN conjunct2, THEN conjunct2,
      rule_format, OF c]
  from a T1 T2 T3 c show ?thesis
    by (simp add: env_ok_def all_steps_def)
qed

text \<open>
  The claim as stated fails for a direct call: the request \<open>audio, bogus\<close> is not
  rejected, the audio step is evaluated; the request \<open>bogus\<close> alone returns without a
  record and without an error.
\<close>

theorem unknown_step_name_accepted_counterexample:
  "snd (publish_episode env_ok (Some [''audio'', ''bogus'']) w_done) = Inr () \<and>
   outcomes w_done (fst (publish_episode env_ok (Some [''audio'', ''bogus'']) w_done)) =
     [(''audio'', ''SKIP'', ''audio.mp3 already exists'')] \<and>
   snd (publish_episode env_ok (Some [''bogus'']) w_fresh) = Inr () \<and>
   outcomes w_fresh (fst (publish_episode env_ok (Some [''bogus'']) w_fresh)) = []"
  by (simp add: run_defs world_defs)

text \<open>
  C3, as amended. A gated step whose publish flag is false is left out without a trace: the
  run appends no record for it (no \<open>SKIP\<close>, no "target disabled") and does not call its
  executor. The gate of \<open>youtube\<close> is \<open>publish.youtube\<close>; the gate of \<open>rss\<close> is
  \<open>publish.spotify or publish.apple\<close>.
\<close>

theorem disabled_target_is_silent:
  assumes "metadata_toml w = Parsed meta" and "w' = fst (publish_episode env steps w)"
  shows "(\<not> m_publish_youtube meta \<longrightarrow>
            (\<forall>e \<in> set (appended w w'). e_step e \<noteq> ''youtube'') \<and> ''youtube'' \<notin> set (new_calls w w')) \<and>
         (\<not> m_publish_spotify meta \<and> \<not> m_publish_apple meta \<longrightarrow>
            (\<forall>e \<in> set (appended w w'). e_step e \<noteq> ''rss'') \<and> ''rss'' \<notin> set (new_calls w w'))"
proof -
  from publish_episode_cases [of env steps w] assms
  consider "w' = w" | "w' = run_pipeline env (run_steps_of steps) meta w"
    by auto
  then show ?thesis
  proof cases
    case 1
    then show ?thesis by simp
  next
    case 2
    then show ?thesis
      using run_pipeline_appended_steps [of _ w env "run_steps_of steps" meta]
        run_pipeline_new_calls_steps [of _ w env "run_steps_of steps" meta]
      by blast
  qed
qed

theorem disabled_target_is_silent_witness:
  "metadata_toml w_gated = Parsed meta_off \<and> \<not> m_publish_youtube meta_off \<and>
   \<not> m_publish_spotify meta_off \<and> \<not> m_publish_apple meta_off \<and>
   ''youtube'' \<notin> e_step ` set (appended w_gated (fst (publish_episode env_ok None w_gated))) \<and>
   ''rss'' \<notin> e_step ` set (appended w_gated (fst (publish_episode env_ok None w_gated))) \<and>
   ''youtube'' \<notin> set (new_calls w_gated (fst (publish_episode env_ok None w_gated))) \<and>
   ''rss'' \<notin> set (new_calls w_gated (fst (publish_episode env_ok None w_gated)))"
proof -
  have a: "metadata_toml w_gated = Parsed meta_off"
    by (simp add: w_gated_def)
  have b: "\<not> m_publish_youtube meta_off" "\<not> m_publish_spotify meta_off" "\<not> m_publish_apple meta_off"
    by (simp_all add: meta_off_def)
  show ?thesis
    using disabled_target_is_silent [OF a refl, of env_ok None] a b by auto
qed

text \<open>
  The claim as stated fails: with all three flags false, video and audio present and the
  steps \<open>youtube\<close> and \<open>rss\<close> requested, the run writes nothing at all.
\<close>

theorem gated_step_silent_counterexample:
  "m_publish_youtube meta_off = False \<and> files w_gated ''video.mp4'' = Some 50000000 \<and>
   outcomes w_gated (fst (publish_episode env_ok (Some [''youtube'', ''rss'']) w_gated)) = [] \<and>
   new_calls w_gated (fst (publish_episode env_ok (Some [''youtube'', ''rss'']) w_gated)) = []"
  by (simp add: publish_episode_def load_metadata_def run_pipeline_def run_steps_of_def
      video_name_def step_defs w_gated_def w_fresh_def meta_off_def meta_all_def
      outcomes_def appended_def new_calls_def)

text \<open>
  C4, as amended. The order of the names in a request does not matter: two requests with
  the same set of names give the same run. The records a run appends and the executor calls
  it makes follow the pipeline order \<open>audio\<close>, \<open>transcript\<close>, \<open>show_notes\<close>,
  \<open>youtube\<close>, \<open>rss\<close>, and every step that appears was requested. The converse holds
  only in part: a requested step is attempted unless the audio step failed and ended the
  run, or the step is \<open>youtube\<close> or \<open>rss\<close> and its publish flag is false.
\<close>

theorem request_order_irrelevant:
  assumes "w' = fst (publish_episode env steps w)"
  shows "(set xs = set ys \<longrightarrow> publish_episode env (Some xs) w = publish_episode env (Some ys) w) \<and>
         sorted (map (step_pos \<circ> e_step) (appended w w')) \<and>
         sorted (map step_pos (new_calls w w')) \<and>
         (\<forall>e \<in> set (appended w w'). e_step e \<in> set (run_steps_of steps) \<and> e_step e \<in> set all_steps) \<and>
         (\<forall>c \<in> set (new_calls w w'). c \<in> set (run_steps_of steps) \<and> c \<in> set all_steps) \<and>
         (\<forall>meta ep title s.
            metadata_toml w = Parsed meta \<and> m_episode meta = Some ep \<and> ep_title ep = Some title \<and>
            \<not> snd (step_audio env (run_steps_of steps) (video_name meta) w) \<and>
            s \<in> set (run_steps_of steps) \<and> s \<in> set all_steps \<and>
            (s = ''youtube'' \<longrightarrow> m_publish_youtube meta) \<and>
            (s = ''rss'' \<longrightarrow> m_publish_spotify meta \<or> m_publish_apple meta) \<longrightarrow>
            s \<in> e_step ` set (appended w w'))"
proof -
  have evaluated: "s \<in> e_step ` set (appended w w')"
    if H: "metadata_toml w = Parsed meta \<and> m_episode meta = Some ep \<and> ep_title ep = Some title \<and>
            \<not> snd (step_audio env (run_steps_of steps) (video_name meta) w) \<and>
            s \<in> set (run_steps_of steps) \<and> s \<in> set all_steps \<and>
            (s = ''youtube'' \<longrightarrow> m_publish_youtube meta) \<and>
            (s = ''rss'' \<longrightarrow> m_publish_spotify meta \<or> m_publish_apple meta)"
    for meta ep title s
  proof -
    from H have ok: "metadata_toml w = Parsed meta" "m_episode meta = Some ep" "ep_title ep = Some title"
      by simp_all
    from H have run: "\<not> snd (step_audio env (run_steps_of steps) (video_name meta) w)"
      "s \<in> set (run_steps_of steps)" "s \<in> set all_steps"
      "s = ''youtube'' \<longrightarrow> m_publish_youtube meta"
      "s = ''rss'' \<longrightarrow> m_publish_spotify meta \<or> m_publish_apple meta"
      by simp_all
    from run_pipeline_evaluated [OF run] publish_episode_ok [OF ok, of env steps] assms
    show ?thesis by simp
  qed
  from publish_episode_cases [of env steps w] assms
  consider "w' = w" | meta where "w' = run_pipeline env (run_steps_of steps) meta w"
    by auto
  then have rest: "sorted (map (step_pos \<circ> e_step) (appended w w')) \<and>
         sorted (map step_pos (new_calls w w')) \<and>
         (\<forall>e \<in> set (appended w w'). e_step e \<in> set (run_steps_of steps) \<and> e_step e \<in> set all_steps) \<and>
         (\<forall>c \<in> set (new_calls w w'). c \<in> set (run_steps_of steps) \<and> c \<in> set all_steps)"
  proof cases
    case 1
    then show ?thesis by simp
  next
    case 2
    have "\<forall>e \<in> set (appended w w'). e_step e \<in> set (run_steps_of steps) \<and> e_step e \<in> set all_steps"
      unfolding 2 by (intro ballI, drule run_pipeline_appended_steps, simp)
    moreover have "\<forall>c \<in> set (new_calls w w'). c \<in> set (run_steps_of steps) \<and> c \<in> set all_steps"
      unfolding 2 by (intro ballI, drule run_pipeline_new_calls_steps, simp)
    ultimately show ?thesis
      unfolding 2 using run_pipeline_sorted [of w env "run_steps_of steps" meta]
      by (simp only: simp_thms)
  qed
  show ?thesis
  proof (intro conjI allI impI)
    show "publish_episode env (Some xs) w = publish_episode env (Some ys) w" if "set xs = set ys"
      using that by (rule publish_episode_cong)
  next
    fix meta ep title s
    assume "metadata_toml w = Parsed meta \<and> m_episode meta = Some ep \<and> ep_title ep = Some title \<and>
            \<not> snd (step_audio env (run_steps_of steps) (video_name meta) w) \<and>
            s \<in> set (run_steps_of steps) \<and> s \<in> set all_steps \<and>
            (s = ''youtube'' \<longrightarrow> m_publish_youtube meta) \<and>
            (s = ''rss'' \<longrightarrow> m_publish_spotify meta \<or> m_publish_apple meta)"
    then show "s \<in> e_step ` set (appended w w')"
      by (rule evaluated)
  qed (rule rest [THEN conjunct1] rest [THEN conjunct2, THEN conjunct1]
      rest [THEN conjunct2, THEN conjunct2, THEN conjunct1]
      rest [THEN conjunct2, THEN conjunct2, THEN conjunct2])+
qed

theorem request_order_irrelevant_witness:
  "set [''rss'', ''audio''] = set [''audio'', ''rss''] \<and>
   publish_episode env_ok (Some [''rss'', ''audio'']) w_fresh =
     publish_episode env_ok (Some [''audio'', ''rss'']) w_fresh \<and>
   outcomes w_fresh (fst (publish_episode env_ok (Some [''rss'', ''audio'']) w_fresh)) =
     [(''audio'', ''START'', ''Extracting from video.mp4''), (''audio'', ''DONE'', ''1.2 MB''),
      (''rss'', ''START'', ''Updating RSS feed''),
      (''rss'', ''DONE'', ''https://example.com/feed/podcast.xml'')] \<and>
   sorted (map (step_pos \<circ> e_step)
     (appended w_fresh (fst (publish_episode env_ok (Some [''rss'', ''audio'']) w_fresh)))) \<and>
   ''rss'' \<in> e_step ` set (appended w_fresh (fst (publish_episode env_ok (Some [''rss'', ''audio'']) w_fresh)))"
proof -
  note T = request_order_irrelevant [OF refl, where env = env_ok and w = w_fresh
      and steps = "Some [''rss'', ''audio'']" and xs = "[''rss'', ''audio'']"
      and ys = "[''audio'', ''rss'']"]
  have s: "set [''rss'', ''audio''] = set [''audio'', ''rss'']"
    by auto
  have o: "outcomes w_fresh (fst (publish_episode env_ok (Some [''rss'', ''audio'']) w_fresh)) =
     [(''audio'', ''START'', ''Extracting from video.mp4''), (''audio'', ''DONE'', ''1.2 MB''),
      (''rss'', ''START'', ''Updating RSS feed''),
      (''rss'', ''DONE'', ''https://example.com/feed/podcast.xml'')]"
    by (simp add: run_defs example_defs)
  have h: "metadata_toml w_fresh = Parsed meta_all \<and>
      m_episode meta_all = Some \<lparr>ep_title = Some ''Pilot'', ep_description = None, ep_number = Some ''1''\<rparr> \<and>
      ep_title \<lparr>ep_title = Some ''Pilot'', ep_description = None, ep_number = Some ''1''\<rparr> = Some ''Pilot'' \<and>
      \<not> snd (step_audio env_ok (run_steps_of (Some [''rss'', ''audio''])) (video_name meta_all) w_fresh) \<and>
      ''rss'' \<in> set (run_steps_of (Some [''rss'', ''audio''])) \<and> ''rss'' \<in> set all_steps \<and>
      (''rss'' = ''youtube'' \<longrightarrow> m_publish_youtube meta_all) \<and>
      (''rss'' = ''rss'' \<longrightarrow> m_publish_spotify meta_all \<or> m_publish_apple meta_all)"
    by (simp add: run_defs example_defs)
  note ev = T [THEN conjunct2, THEN conjunct2, THEN conjunct2, THEN conjunct2, THEN conjunct2,
      rule_format, OF h]
  show ?thesis
    by (intro conjI) (rule s T [THEN conjunct1, rule_format, OF s] o T [THEN conjunct2, THEN conjunct1] ev)+
qed

text \<open>
  The claim as stated ("the steps attempted are exactly the requested steps") fails twice
  over: with \<open>publish.youtube\<close> false the requested \<open>youtube\<close> step leaves no record
  and makes no call, and after a failure of the audio executor none of the four later
  requested steps is attempted.
\<close>

theorem requested_steps_not_all_attempted_counterexample:
  "outcomes w_gated (fst (publish_episode env_ok (Some [''youtube'', ''audio'']) w_gated)) =
     [(''audio'', ''SKIP'', ''audio.mp3 already exists'')] \<and>
   new_calls w_gated (fst (publish_episode env_ok (Some [''youtube'', ''audio'']) w_gated)) = [] \<and>
   outcomes w_fresh (fst (publish_episode env_ffmpeg_bad None w_fresh)) =
     [(''audio'', ''START'', ''Extracting from video.mp4''),
      (''audio'', ''FAIL'', ''ffmpeg failed: '' @ replicate 500 (CHR ''x''))] \<and>
   new_calls w_fresh (fst (publish_episode env_ffmpeg_bad None w_fresh)) = [''audio'']"
  by (simp add: run_defs example_defs)

text \<open>
  C10, as amended. \<open>w1\<close> to \<open>w5\<close> are the worlds after each of the five steps and
  \<open>w'\<close> the world after the run. The run appends a record of step \<open>rss\<close> exactly when
  \<open>rss\<close> is requested, \<open>publish.spotify or publish.apple\<close> is true and the audio step
  did not end the run. When the audio step ends the run, the \<open>rss\<close> executor is not called.
  Otherwise the \<open>rss\<close> records of the run are those of the fifth step: with the gate open,
  one \<open>SKIP\<close> "No audio file" when \<open>audio.mp3\<close> is absent, else \<open>START\<close>, one call of
  the executor and then \<open>DONE\<close> with the value it returned or \<open>FAIL\<close> with its message,
  the same for one flag or both; with the gate closed, no record, no call and the directory
  left as it was. No record names \<open>spotify\<close> or \<open>apple\<close>.
\<close>

theorem rss_gate:
  assumes v: "v = video_name meta"
    and w1: "w1 = fst (step_audio env rs v w)"
    and w2: "w2 = step_transcript env rs w1"
    and w3: "w3 = step_show_notes env rs meta w2"
    and w4: "w4 = step_youtube env rs v meta w3"
    and w5: "w5 = step_rss env rs meta w4"
    and w': "w' = run_pipeline env rs meta w"
  shows
    "(''rss'' \<in> e_step ` set (appended w w') \<longleftrightarrow>
        ''rss'' \<in> set rs \<and> (m_publish_spotify meta \<or> m_publish_apple meta) \<and>
        \<not> snd (step_audio env rs v w)) \<and>
     (snd (step_audio env rs v w) \<longrightarrow> w' = w1 \<and> ''rss'' \<notin> set (new_calls w w')) \<and>
     (\<not> snd (step_audio env rs v w) \<longrightarrow>
        w' = w5 \<and>
        filter (\<lambda>x. fst x = ''rss'') (outcomes w w') = outcomes w4 w5 \<and>
        outcomes w4 w5 =
          (if ''rss'' \<in> set rs \<and> (m_publish_spotify meta \<or> m_publish_apple meta)
           then if files w4 ''audio.mp3'' = None then [(''rss'', ''SKIP'', ''No audio file'')]
                else [(''rss'', ''START'', ''Updating RSS feed''),
                      (case snd (exec_rss env ''audio.mp3'' meta (files w4)) of
                         Inl msg \<Rightarrow> (''rss'', ''FAIL'', msg)
                       | Inr feed_url \<Rightarrow> (''rss'', ''DONE'', feed_url))]
           else []) \<and>
        filter (\<lambda>c. c = ''rss'') (new_calls w w') =
          (if ''rss'' \<in> set rs \<and> (m_publish_spotify meta \<or> m_publish_apple meta) \<and>
              files w4 ''audio.mp3'' \<noteq> None
           then [''rss''] else []) \<and>
        files w' =
          (if ''rss'' \<in> set rs \<and> (m_publish_spotify meta \<or> m_publish_apple meta) \<and>
              files w4 ''audio.mp3'' \<noteq> None
           then fst (exec_rss env ''audio.mp3'' meta (files w4)) else files w4)) \<and>
     ''spotify'' \<notin> e_step ` set (appended w w') \<and> ''apple'' \<notin> e_step ` set (appended w w')"
proof -
  note seg = run_pipeline_segments [OF w1 w2 w3 w4 w5]
  note oseg = run_pipeline_outcomes [OF w1 w2 w3 w4 w5]
  have member: "e_step e \<in> set rs \<and> e_step e \<in> set all_steps \<and>
      (e_step e = ''rss'' \<longrightarrow> m_publish_spotify meta \<or> m_publish_apple meta)"
    if "e \<in> set (appended w w')" for e
    using run_pipeline_appended_steps [OF that [unfolded w']] by simp
  have names: "''spotify'' \<notin> e_step ` set (appended w w')" "''apple'' \<notin> e_step ` set (appended w w')"
  proof -
    have "s \<notin> e_step ` set (appended w w')" if "s \<notin> set all_steps" for s
    proof
      assume "s \<in> e_step ` set (appended w w')"
      then obtain e where "e \<in> set (appended w w')" "e_step e = s"
        by auto
      with member [of e] that show False
        by simp
    qed
    then show "''spotify'' \<notin> e_step ` set (appended w w')" "''apple'' \<notin> e_step ` set (appended w w')"
      by (simp_all add: all_steps_def)
  qed
  have returned: "w' = w1 \<and> ''rss'' \<notin> set (new_calls w w') \<and> ''rss'' \<notin> e_step ` set (appended w w')"
    if r: "snd (step_audio env rs v w)"
  proof -
    from r have run: "w' = w1"
      by (simp add: w' w1 v run_pipeline_returned)
    have "c = ''audio''" if "c \<in> set (new_calls w w1)" for c
      using that unfolding w1 by (drule_tac step_audio_calls) simp
    then have calls: "''rss'' \<notin> set (new_calls w w1)"
      by auto
    have "e_step e = ''audio''" if "e \<in> set (appended w w1)" for e
      using that unfolding w1 by (drule_tac step_audio_appended) simp
    then have "''rss'' \<notin> e_step ` set (appended w w1)"
      by auto
    with run calls show ?thesis
      by simp
  qed
  have continued: "w' = w5 \<and>
        filter (\<lambda>x. fst x = ''rss'') (outcomes w w') = outcomes w4 w5 \<and>
        filter (\<lambda>c. c = ''rss'') (new_calls w w') = new_calls w4 w5"
    if c: "\<not> snd (step_audio env rs v w)"
  proof -
    from c have run: "w' = w5"
      by (simp add: w' w1 w2 w3 w4 w5 v run_pipeline_continued)
    have o1: "filter (\<lambda>x. fst x = ''rss'') (outcomes w w1) = []"
      unfolding w1
    proof (rule filter_none, intro ballI)
      fix x assume "x \<in> set (outcomes w (fst (step_audio env rs v w)))"
      from step_outcome_names(1) [OF this] show "\<not> fst x = ''rss''" by simp
    qed
    have o2: "filter (\<lambda>x. fst x = ''rss'') (outcomes w1 w2) = []"
      unfolding w2
    proof (rule filter_none, intro ballI)
      fix x assume "x \<in> set (outcomes w1 (step_transcript env rs w1))"
      from step_outcome_names(2) [OF this] show "\<not> fst x = ''rss''" by simp
    qed
    have o3: "filter (\<lambda>x. fst x = ''rss'') (outcomes w2 w3) = []"
      unfolding w3
    proof (rule filter_none, intro ballI)
      fix x assume "x \<in> set (outcomes w2 (step_show_notes env rs meta w2))"
      from step_outcome_names(3) [OF this] show "\<not> fst x = ''rss''" by simp
    qed
    have o4: "filter (\<lambda>x. fst x = ''rss'') (outcomes w3 w4) = []"
      unfolding w4
    proof (rule filter_none, intro ballI)
      fix x assume "x \<in> set (outcomes w3 (step_youtube env rs v meta w3))"
      from step_outcome_names(4) [OF this] show "\<not> fst x = ''rss''" by simp
    qed
    have o5: "filter (\<lambda>x. fst x = ''rss'') (outcomes w4 w5) = outcomes w4 w5"
      unfolding w5
    proof (rule filter_all, intro ballI)
      fix x assume "x \<in> set (outcomes w4 (step_rss env rs meta w4))"
      then show "fst x = ''rss''" by (rule step_outcome_names(5))
    qed
    have cs: "filter (\<lambda>c. c = ''rss'') (new_calls w w1) = []"
      "filter (\<lambda>c. c = ''rss'') (new_calls w1 w2) = []"
      "filter (\<lambda>c. c = ''rss'') (new_calls w2 w3) = []"
      "filter (\<lambda>c. c = ''rss'') (new_calls w3 w4) = []"
      unfolding w1 w2 w3 w4
      by (simp_all add: step_audio_new_calls step_transcript_new_calls step_show_notes_new_calls
          step_youtube_new_calls)
    have c5: "filter (\<lambda>c. c = ''rss'') (new_calls w4 w5) = new_calls w4 w5"
      unfolding w5 by (simp add: step_rss_new_calls)
    show ?thesis
      by (simp only: run oseg seg(2) filter_append o1 o2 o3 o4 o5 cs c5 append_Nil simp_thms)
  qed
  have iff: "''rss'' \<in> e_step ` set (appended w w') \<longleftrightarrow>
      ''rss'' \<in> set rs \<and> (m_publish_spotify meta \<or> m_publish_apple meta) \<and>
      \<not> snd (step_audio env rs v w)"
  proof
    assume a: "''rss'' \<in> e_step ` set (appended w w')"
    then obtain e where "e \<in> set (appended w w')" "e_step e = ''rss''"
      by auto
    with member [of e] have "''rss'' \<in> set rs \<and> (m_publish_spotify meta \<or> m_publish_apple meta)"
      by simp
    moreover from a returned have "\<not> snd (step_audio env rs v w)"
      by blast
    ultimately show "''rss'' \<in> set rs \<and> (m_publish_spotify meta \<or> m_publish_apple meta) \<and>
      \<not> snd (step_audio env rs v w)"
      by simp
  next
    assume "''rss'' \<in> set rs \<and> (m_publish_spotify meta \<or> m_publish_apple meta) \<and>
      \<not> snd (step_audio env rs v w)"
    then show "''rss'' \<in> e_step ` set (appended w w')"
      unfolding w' v by (intro run_pipeline_evaluated) (simp_all add: all_steps_def)
  qed
  show ?thesis
  proof (intro conjI impI)
    show "''rss'' \<in> e_step ` set (appended w w') \<longleftrightarrow>
        ''rss'' \<in> set rs \<and> (m_publish_spotify meta \<or> m_publish_apple meta) \<and>
        \<not> snd (step_audio env rs v w)"
      by (rule iff)
  next
    assume r: "snd (step_audio env rs v w)"
    show "w' = w1"
      by (rule returned [OF r, THEN conjunct1])
    show "''rss'' \<notin> set (new_calls w w')"
      by (rule returned [OF r, THEN conjunct2, THEN conjunct1])
  next
    assume c: "\<not> snd (step_audio env rs v w)"
    note k = continued [OF c]
    show "w' = w5"
      by (rule k [THEN conjunct1])
    show "filter (\<lambda>x. fst x = ''rss'') (outcomes w w') = outcomes w4 w5"
      by (rule k [THEN conjunct2, THEN conjunct1])
    show "outcomes w4 w5 =
          (if ''rss'' \<in> set rs \<and> (m_publish_spotify meta \<or> m_publish_apple meta)
           then if files w4 ''audio.mp3'' = None then [(''rss'', ''SKIP'', ''No audio file'')]
                else [(''rss'', ''START'', ''Updating RSS feed''),
                      (case snd (exec_rss env ''audio.mp3'' meta (files w4)) of
                         Inl msg \<Rightarrow> (''rss'', ''FAIL'', msg)
                       | Inr feed_url \<Rightarrow> (''rss'', ''DONE'', feed_url))]
           else [])"
      unfolding w5 by (rule step_rss_outcomes)
    show "filter (\<lambda>c. c = ''rss'') (new_calls w w') =
          (if ''rss'' \<in> set rs \<and> (m_publish_spotify meta \<or> m_publish_apple meta) \<and>
              files w4 ''audio.mp3'' \<noteq> None
           then [''rss''] else [])"
      unfolding k [THEN conjunct2, THEN conjunct2] w5 by (rule step_rss_new_calls)
    show "files w' =
          (if ''rss'' \<in> set rs \<and> (m_publish_spotify meta \<or> m_publish_apple meta) \<and>
              files w4 ''audio.mp3'' \<noteq> None
           then fst (exec_rss env ''audio.mp3'' meta (files w4)) else files w4)"
      unfolding k [THEN conjunct1] w5 by (rule step_rss_files)
  qed (rule names)+
qed

theorem rss_gate_witness:
  "\<not> snd (step_audio env_ok all_steps (video_name meta_all) w_fresh) \<and>
   ''rss'' \<in> set all_steps \<and> m_publish_spotify meta_all \<and>
   ''rss'' \<in> e_step ` set (appended w_fresh (run_pipeline env_ok all_steps meta_all w_fresh)) \<and>
   filter (\<lambda>x. fst x = ''rss'') (outcomes w_fresh (run_pipeline env_ok all_steps meta_all w_fresh)) =
     [(''rss'', ''START'', ''Updating RSS feed''),
      (''rss'', ''DONE'', ''https://example.com/feed/podcast.xml'')] \<and>
   filter (\<lambda>c. c = ''rss'') (new_calls w_fresh (run_pipeline env_ok all_steps meta_all w_fresh)) =
     [''rss''] \<and>
   snd (step_audio env_ffmpeg_bad all_steps (video_name meta_all) w_fresh) \<and>
   ''rss'' \<notin> e_step ` set (appended w_fresh (run_pipeline env_ffmpeg_bad all_steps meta_all w_fresh)) \<and>
   ''rss'' \<notin> set (new_calls w_fresh (run_pipeline env_ffmpeg_bad all_steps meta_all w_fresh))"
proof -
  note T = rss_gate [OF refl refl refl refl refl refl refl, where env = env_ok and rs = all_steps
      and meta = meta_all and w = w_fresh]
  note U = rss_gate [OF refl refl refl refl refl refl refl, where env = env_ffmpeg_bad
      and rs = all_steps and meta = meta_all and w = w_fresh]
  have c: "\<not> snd (step_audio env_ok all_steps (video_name meta_all) w_fresh)"
    by (simp add: run_defs example_defs)
  have r: "snd (step_audio env_ffmpeg_bad all_steps (video_name meta_all) w_fresh)"
    by (simp add: run_defs example_defs)
  have g: "''rss'' \<in> set all_steps" "m_publish_spotify meta_all"
    by (simp_all add: all_steps_def meta_all_def)
  from g c have h: "''rss'' \<in> set all_steps \<and> (m_publish_spotify meta_all \<or> m_publish_apple meta_all) \<and>
      \<not> snd (step_audio env_ok all_steps (video_name meta_all) w_fresh)"
    by simp
  note present = T [THEN conjunct1, THEN iffD2, OF h]
  note K = T [THEN conjunct2, THEN conjunct2, THEN conjunct1, rule_format, OF c]
  have o: "filter (\<lambda>x. fst x = ''rss'')
      (outcomes w_fresh (run_pipeline env_ok all_steps meta_all w_fresh)) =
     [(''rss'', ''START'', ''Updating RSS feed''),
      (''rss'', ''DONE'', ''https://example.com/feed/podcast.xml'')]"
    unfolding K [THEN conjunct2, THEN conjunct1]
      K [THEN conjunct2, THEN conjunct2, THEN conjunct1]
    by (simp add: run_defs example_defs)
  have n: "filter (\<lambda>c. c = ''rss'')
      (new_calls w_fresh (run_pipeline env_ok all_steps meta_all w_fresh)) = [''rss'']"
    unfolding K [THEN conjunct2, THEN conjunct2, THEN conjunct2, THEN conjunct1]
    by (simp add: run_defs example_defs)
  from U [THEN conjunct1] r
  have absent: "''rss'' \<notin> e_step ` set (appended w_fresh (run_pipeline env_ffmpeg_bad all_steps meta_all w_fresh))"
    by simp
  note nocall = U [THEN conjunct2, THEN conjunct1, rule_format, OF r, THEN conjunct2]
  from c g present o n r absent nocall show ?thesis
    by (simp only: simp_thms)
qed

text \<open>
  The claim as stated fails with both flags true: when \<open>ffmpeg\<close> fails the run ends after
  the audio step, and when only \<open>audio\<close> is requested the fifth step is passed over; in
  neither run is the \<open>rss\<close> step evaluated.
\<close>

theorem rss_not_evaluated_counterexample:
  "m_publish_spotify meta_all \<and> m_publish_apple meta_all \<and>
   metadata_toml w_fresh = Parsed meta_all \<and> metadata_toml w_done = Parsed meta_all \<and>
   outcomes w_fresh (fst (publish_episode env_ffmpeg_bad None w_fresh)) =
     [(''audio'', ''START'', ''Extracting from video.mp4''),
      (''audio'', ''FAIL'', ''ffmpeg failed: '' @ replicate 500 (CHR ''x''))] \<and>
   new_calls w_fresh (fst (publish_episode env_ffmpeg_bad None w_fresh)) = [''audio''] \<and>
   outcomes w_done (fst (publish_episode env_ok (Some [''audio'']) w_done)) =
     [(''audio'', ''SKIP'', ''audio.mp3 already exists'')] \<and>
   new_calls w_done (fst (publish_episode env_ok (Some [''audio'']) w_done)) = []"
  by (simp add: run_defs example_defs)

text \<open>
  C2. Failure isolation. \<open>w1\<close> to \<open>w5\<close> are the worlds after each of the five steps.
  When the audio step runs its executor and the executor raises, the run ends there: it
  appends the \<open>START\<close> and the \<open>FAIL\<close> record of \<open>audio\<close> and nothing else, so no
  later step is attempted and none gets a \<open>FAIL\<close>; whenever the audio step ends the run
  (also when the executor returns without leaving \<open>audio.mp3\<close>), all appended records are
  \<open>audio\<close> records. When the audio step does not end the run, the run is the sequence of
  all five steps: an executor of \<open>transcript\<close>, \<open>show_notes\<close>, \<open>youtube\<close> or \<open>rss\<close>
  that raises leaves \<open>START\<close> and \<open>FAIL\<close> with its message for that step, and every
  later requested step (for \<open>youtube\<close> and \<open>rss\<close>: with its flag true) is still
  evaluated and leaves records of its own.
\<close>

theorem failure_isolation:
  assumes "v = video_name meta"
    and "w1 = fst (step_audio env rs v w)"
    and "w2 = step_transcript env rs w1"
    and "w3 = step_show_notes env rs meta w2"
    and "w4 = step_youtube env rs v meta w3"
    and "w5 = step_rss env rs meta w4"
  shows
    "(''audio'' \<in> set rs \<and> files w v \<noteq> None \<and> files w ''audio.mp3'' = None \<and>
        snd (exec_audio env v ''audio.mp3'' (files w)) = Inl msg \<longrightarrow>
        outcomes w (run_pipeline env rs meta w) =
          [(''audio'', ''START'', ''Extracting from '' @ path_name (joinpath (episode_dir env) v)),
           (''audio'', ''FAIL'', msg)] \<and>
        new_calls w (run_pipeline env rs meta w) = [''audio'']) \<and>
     (snd (step_audio env rs v w) \<longrightarrow>
        run_pipeline env rs meta w = w1 \<and>
        (\<forall>x \<in> set (outcomes w (run_pipeline env rs meta w)). fst x = ''audio'') \<and>
        (\<forall>c \<in> set (new_calls w (run_pipeline env rs meta w)). c = ''audio'')) \<and>
     (\<not> snd (step_audio env rs v w) \<longrightarrow>
        run_pipeline env rs meta w = w5 \<and>
        outcomes w w5 =
          outcomes w w1 @ outcomes w1 w2 @ outcomes w2 w3 @ outcomes w3 w4 @ outcomes w4 w5 \<and>
        (''transcript'' \<in> set rs \<and> files w1 ''transcript.md'' = None \<and>
         files w1 ''audio.mp3'' \<noteq> None \<and>
         snd (exec_transcript env ''audio.mp3'' ''transcript.md'' (files w1)) = Inl m2 \<longrightarrow>
           outcomes w1 w2 =
             [(''transcript'', ''START'', ''Transcribing with Whisper''), (''transcript'', ''FAIL'', m2)]) \<and>
        (''show_notes'' \<in> set rs \<and> files w2 ''show-notes.md'' = None \<and>
         files w2 ''transcript.md'' \<noteq> None \<and>
         snd (exec_show_notes env ''transcript.md'' ''show-notes.md'' meta (files w2)) = Inl m3 \<longrightarrow>
           outcomes w2 w3 =
             [(''show_notes'', ''START'', ''Generating with Claude''), (''show_notes'', ''FAIL'', m3)]) \<and>
        (''youtube'' \<in> set rs \<and> m_publish_youtube meta \<and> files w3 v \<noteq> None \<and>
         snd (exec_youtube env v meta (files w3)) = Inl m4 \<longrightarrow>
           outcomes w3 w4 =
             [(''youtube'', ''START'', ''Uploading to YouTube''), (''youtube'', ''FAIL'', m4)]) \<and>
        (''rss'' \<in> set rs \<and> (m_publish_spotify meta \<or> m_publish_apple meta) \<and>
         files w4 ''audio.mp3'' \<noteq> None \<and>
         snd (exec_rss env ''audio.mp3'' meta (files w4)) = Inl m5 \<longrightarrow>
           outcomes w4 w5 = [(''rss'', ''START'', ''Updating RSS feed''), (''rss'', ''FAIL'', m5)]) \<and>
        (\<forall>x \<in> set (outcomes w1 w2). fst x = ''transcript'') \<and>
        (\<forall>x \<in> set (outcomes w2 w3). fst x = ''show_notes'') \<and>
        (\<forall>x \<in> set (outcomes w3 w4). fst x = ''youtube'') \<and>
        (\<forall>x \<in> set (outcomes w4 w5). fst x = ''rss'') \<and>
        (''transcript'' \<in> set rs \<longrightarrow> outcomes w1 w2 \<noteq> []) \<and>
        (''show_notes'' \<in> set rs \<longrightarrow> outcomes w2 w3 \<noteq> []) \<and>
        (''youtube'' \<in> set rs \<and> m_publish_youtube meta \<longrightarrow> outcomes w3 w4 \<noteq> []) \<and>
        (''rss'' \<in> set rs \<and> (m_publish_spotify meta \<or> m_publish_apple meta) \<longrightarrow>
           outcomes w4 w5 \<noteq> []))"
proof (intro conjI impI)
  assume H: "''audio'' \<in> set rs \<and> files w v \<noteq> None \<and> files w ''audio.mp3'' = None \<and>
        snd (exec_audio env v ''audio.mp3'' (files w)) = Inl msg"
  then have ret: "snd (step_audio env rs (video_name meta) w)"
    by (simp add: step_audio_returned assms(1))
  from H show "outcomes w (run_pipeline env rs meta w) =
          [(''audio'', ''START'', ''Extracting from '' @ path_name (joinpath (episode_dir env) v)),
           (''audio'', ''FAIL'', msg)]"
    by (simp add: run_pipeline_returned [OF ret] step_audio_outcomes assms(1) [symmetric])
  from H show "new_calls w (run_pipeline env rs meta w) = [''audio'']"
    by (simp add: run_pipeline_returned [OF ret] step_audio_new_calls assms(1) [symmetric])
next
  assume "snd (step_audio env rs v w)"
  then have ret: "snd (step_audio env rs (video_name meta) w)"
    by (simp add: assms(1))
  show run: "run_pipeline env rs meta w = w1"
    by (simp add: run_pipeline_returned [OF ret] assms(1,2))
  show "\<forall>x \<in> set (outcomes w (run_pipeline env rs meta w)). fst x = ''audio''"
    unfolding run assms(2)
    by (rule outcomes_steps, intro ballI, drule step_audio_appended, simp)
  show "\<forall>c \<in> set (new_calls w (run_pipeline env rs meta w)). c = ''audio''"
    unfolding run assms(2) by (intro ballI, drule step_audio_calls, simp)
next
  assume "\<not> snd (step_audio env rs v w)"
  then have cont: "\<not> snd (step_audio env rs (video_name meta) w)"
    by (simp add: assms(1))
  show "run_pipeline env rs meta w = w5"
    by (simp add: run_pipeline_continued [OF cont] assms)
  show "outcomes w w5 =
          outcomes w w1 @ outcomes w1 w2 @ outcomes w2 w3 @ outcomes w3 w4 @ outcomes w4 w5"
    by (rule run_pipeline_outcomes [OF assms(2-6)])
next
  assume "''transcript'' \<in> set rs \<and> files w1 ''transcript.md'' = None \<and>
         files w1 ''audio.mp3'' \<noteq> None \<and>
         snd (exec_transcript env ''audio.mp3'' ''transcript.md'' (files w1)) = Inl m2"
  then show "outcomes w1 w2 =
      [(''transcript'', ''START'', ''Transcribing with Whisper''), (''transcript'', ''FAIL'', m2)]"
    by (simp add: assms(3) step_transcript_outcomes)
next
  assume "''show_notes'' \<in> set rs \<and> files w2 ''show-notes.md'' = None \<and>
         files w2 ''transcript.md'' \<noteq> None \<and>
         snd (exec_show_notes env ''transcript.md'' ''show-notes.md'' meta (files w2)) = Inl m3"
  then show "outcomes w2 w3 =
      [(''show_notes'', ''START'', ''Generating with Claude''), (''show_notes'', ''FAIL'', m3)]"
    by (simp add: assms(4) step_show_notes_outcomes)
next
  assume "''youtube'' \<in> set rs \<and> m_publish_youtube meta \<and> files w3 v \<noteq> None \<and>
         snd (exec_youtube env v meta (files w3)) = Inl m4"
  then show "outcomes w3 w4 =
      [(''youtube'', ''START'', ''Uploading to YouTube''), (''youtube'', ''FAIL'', m4)]"
    by (simp add: assms(5) step_youtube_outcomes)
next
  assume "''rss'' \<in> set rs \<and> (m_publish_spotify meta \<or> m_publish_apple meta) \<and>
         files w4 ''audio.mp3'' \<noteq> None \<and>
         snd (exec_rss env ''audio.mp3'' meta (files w4)) = Inl m5"
  then show "outcomes w4 w5 = [(''rss'', ''START'', ''Updating RSS feed''), (''rss'', ''FAIL'', m5)]"
    by (simp add: assms(6) step_rss_outcomes)
next
  show "\<forall>x \<in> set (outcomes w1 w2). fst x = ''transcript''"
    unfolding assms(3) by (rule outcomes_steps, intro ballI, drule step_transcript_appended, simp)
  show "\<forall>x \<in> set (outcomes w2 w3). fst x = ''show_notes''"
    unfolding assms(4) by (rule outcomes_steps, intro ballI, drule step_show_notes_appended, simp)
  show "\<forall>x \<in> set (outcomes w3 w4). fst x = ''youtube''"
    unfolding assms(5) by (rule outcomes_steps, intro ballI, drule step_youtube_appended, simp)
  show "\<forall>x \<in> set (outcomes w4 w5). fst x = ''rss''"
    unfolding assms(6) by (rule outcomes_steps, intro ballI, drule step_rss_appended, simp)
next
  assume "''transcript'' \<in> set rs"
  then show "outcomes w1 w2 \<noteq> []"
    unfolding assms(3) by (intro outcomes_evaluated step_transcript_evaluated)
next
  assume "''show_notes'' \<in> set rs"
  then show "outcomes w2 w3 \<noteq> []"
    unfolding assms(4) by (intro outcomes_evaluated step_show_notes_evaluated)
next
  assume "''youtube'' \<in> set rs \<and> m_publish_youtube meta"
  then show "outcomes w3 w4 \<noteq> []"
    unfolding assms(5) by (intro outcomes_evaluated step_youtube_evaluated) simp_all
next
  assume "''rss'' \<in> set rs \<and> (m_publish_spotify meta \<or> m_publish_apple meta)"
  then show "outcomes w4 w5 \<noteq> []"
    unfolding assms(6) by (intro outcomes_evaluated step_rss_evaluated) simp_all
qed

theorem failure_isolation_witness:
  "''audio'' \<in> set all_steps \<and> files w_fresh (video_name meta_all) \<noteq> None \<and>
   files w_fresh ''audio.mp3'' = None \<and>
   snd (exec_audio env_ffmpeg_bad (video_name meta_all) ''audio.mp3'' (files w_fresh)) =
     Inl (''ffmpeg failed: '' @ replicate 500 (CHR ''x'')) \<and>
   outcomes w_fresh (run_pipeline env_ffmpeg_bad all_steps meta_all w_fresh) =
     [(''audio'', ''START'', ''Extracting from video.mp4''),
      (''audio'', ''FAIL'', ''ffmpeg failed: '' @ replicate 500 (CHR ''x''))] \<and>
   \<not> snd (step_audio env_failing all_steps (video_name meta_all) w_fresh) \<and>
   outcomes w_fresh (run_pipeline env_failing all_steps meta_all w_fresh) =
     [(''audio'', ''START'', ''Extracting from video.mp4''), (''audio'', ''DONE'', ''1.2 MB''),
      (''transcript'', ''START'', ''Transcribing with Whisper''),
      (''transcript'', ''FAIL'', ''whisper unavailable''),
      (''show_notes'', ''SKIP'', ''No transcript yet''),
      (''youtube'', ''START'', ''Uploading to YouTube''), (''youtube'', ''FAIL'', ''quota exceeded''),
      (''rss'', ''START'', ''Updating RSS feed''), (''rss'', ''FAIL'', ''feed error'')]"
proof -
  have hA: "''audio'' \<in> set all_steps \<and> files w_fresh (video_name meta_all) \<noteq> None \<and>
      files w_fresh ''audio.mp3'' = None \<and>
      snd (exec_audio env_ffmpeg_bad (video_name meta_all) ''audio.mp3'' (files w_fresh)) =
        Inl (''ffmpeg failed: '' @ replicate 500 (CHR ''x''))"
    by (simp add: run_defs example_defs)
  have hB: "\<not> snd (step_audio env_failing all_steps (video_name meta_all) w_fresh)"
    by (simp add: run_defs example_defs)
  note A = failure_isolation [OF refl refl refl refl refl refl, THEN conjunct1, rule_format, OF hA,
      THEN conjunct1]
  note B = failure_isolation [OF refl refl refl refl refl refl, THEN conjunct2, THEN conjunct2,
      rule_format, OF hB, THEN conjunct1]
  have oB: "outcomes w_fresh (run_pipeline env_failing all_steps meta_all w_fresh) =
     [(''audio'', ''START'', ''Extracting from video.mp4''), (''audio'', ''DONE'', ''1.2 MB''),
      (''transcript'', ''START'', ''Transcribing with Whisper''),
      (''transcript'', ''FAIL'', ''whisper unavailable''),
      (''show_notes'', ''SKIP'', ''No transcript yet''),
      (''youtube'', ''START'', ''Uploading to YouTube''), (''youtube'', ''FAIL'', ''quota exceeded''),
      (''rss'', ''START'', ''Updating RSS feed''), (''rss'', ''FAIL'', ''feed error'')]"
    unfolding B by (simp add: run_defs example_defs)
  have oA: "outcomes w_fresh (run_pipeline env_ffmpeg_bad all_steps meta_all w_fresh) =
     [(''audio'', ''START'', ''Extracting from video.mp4''),
      (''audio'', ''FAIL'', ''ffmpeg failed: '' @ replicate 500 (CHR ''x''))]"
    unfolding A by (simp add: video_name_def meta_all_def audio_detail_examples)
  from hA hB oA oB show ?thesis
    by (simp only: simp_thms)
qed





text \<open>
  C7, as amended. The orchestrator does not truncate: when the executor of a step raises,
  the \<open>FAIL\<close> record written for the step carries \<open>str(e)\<close> whole, whatever its
  length. For a non-zero exit of \<open>ffmpeg\<close>, the message \<open>extract_audio\<close> raises is
  \<open>ffmpeg failed: \<close> followed by the first 500 characters of standard error: 15 +
  min(500, length) characters, which is up to 515 and so more than 500.
\<close>

theorem fail_detail_is_whole_message:
  "(''audio'' \<in> set rs \<and> files w v \<noteq> None \<and> files w ''audio.mp3'' = None \<and>
      snd (exec_audio env v ''audio.mp3'' (files w)) = Inl msg \<longrightarrow>
      outcomes w (fst (step_audio env rs v w)) =
        [(''audio'', ''START'', ''Extracting from '' @ path_name (joinpath (episode_dir env) v)),
         (''audio'', ''FAIL'', msg)]) \<and>
   (''transcript'' \<in> set rs \<and> files w ''transcript.md'' = None \<and> files w ''audio.mp3'' \<noteq> None \<and>
      snd (exec_transcript env ''audio.mp3'' ''transcript.md'' (files w)) = Inl msg \<longrightarrow>
      outcomes w (step_transcript env rs w) =
        [(''transcript'', ''START'', ''Transcribing with Whisper''), (''transcript'', ''FAIL'', msg)]) \<and>
   (''show_notes'' \<in> set rs \<and> files w ''show-notes.md'' = None \<and> files w ''transcript.md'' \<noteq> None \<and>
      snd (exec_show_notes env ''transcript.md'' ''show-notes.md'' meta (files w)) = Inl msg \<longrightarrow>
      outcomes w (step_show_notes env rs meta w) =
        [(''show_notes'', ''START'', ''Generating with Claude''), (''show_notes'', ''FAIL'', msg)]) \<and>
   (''youtube'' \<in> set rs \<and> m_publish_youtube meta \<and> files w v \<noteq> None \<and>
      snd (exec_youtube env v meta (files w)) = Inl msg \<longrightarrow>
      outcomes w (step_youtube env rs v meta w) =
        [(''youtube'', ''START'', ''Uploading to YouTube''), (''youtube'', ''FAIL'', msg)]) \<and>
   (''rss'' \<in> set rs \<and> (m_publish_spotify meta \<or> m_publish_apple meta) \<and>
      files w ''audio.mp3'' \<noteq> None \<and> snd (exec_rss env ''audio.mp3'' meta (files w)) = Inl msg \<longrightarrow>
      outcomes w (step_rss env rs meta w) =
        [(''rss'', ''START'', ''Updating RSS feed''), (''rss'', ''FAIL'', msg)]) \<and>
   (d v \<noteq> None \<and> ff_returncode (ffmpeg v a d) \<noteq> 0 \<longrightarrow>
      snd (extract_audio ffmpeg ed v a d) =
        Inl (''ffmpeg failed: '' @ take 500 (ff_stderr (ffmpeg v a d))) \<and>
      length (''ffmpeg failed: '' @ take 500 (ff_stderr (ffmpeg v a d))) =
        15 + min 500 (length (ff_stderr (ffmpeg v a d))))"
proof (intro conjI impI)
  assume "''audio'' \<in> set rs \<and> files w v \<noteq> None \<and> files w ''audio.mp3'' = None \<and>
      snd (exec_audio env v ''audio.mp3'' (files w)) = Inl msg"
  then show "outcomes w (fst (step_audio env rs v w)) =
      [(''audio'', ''START'', ''Extracting from '' @ path_name (joinpath (episode_dir env) v)),
       (''audio'', ''FAIL'', msg)]"
    by (simp add: step_audio_outcomes)
next
  assume "''transcript'' \<in> set rs \<and> files w ''transcript.md'' = None \<and> files w ''audio.mp3'' \<noteq> None \<and>
      snd (exec_transcript env ''audio.mp3'' ''transcript.md'' (files w)) = Inl msg"
  then show "outcomes w (step_transcript env rs w) =
      [(''transcript'', ''START'', ''Transcribing with Whisper''), (''transcript'', ''FAIL'', msg)]"
    by (simp add: step_transcript_outcomes)
next
  assume "''show_notes'' \<in> set rs \<and> files w ''show-notes.md'' = None \<and> files w ''transcript.md'' \<noteq> None \<and>
      snd (exec_show_notes env ''transcript.md'' ''show-notes.md'' meta (files w)) = Inl msg"
  then show "outcomes w (step_show_notes env rs meta w) =
      [(''show_notes'', ''START'', ''Generating with Claude''), (''show_notes'', ''FAIL'', msg)]"
    by (simp add: step_show_notes_outcomes)
next
  assume "''youtube'' \<in> set rs \<and> m_publish_youtube meta \<and> files w v \<noteq> None \<and>
      snd (exec_youtube env v meta (files w)) = Inl msg"
  then show "outcomes w (step_youtube env rs v meta w) =
      [(''youtube'', ''START'', ''Uploading to YouTube''), (''youtube'', ''FAIL'', msg)]"
    by (simp add: step_youtube_outcomes)
next
  assume "''rss'' \<in> set rs \<and> (m_publish_spotify meta \<or> m_publish_apple meta) \<and>
      files w ''audio.mp3'' \<noteq> None \<and> snd (exec_rss env ''audio.mp3'' meta (files w)) = Inl msg"
  then show "outcomes w (step_rss env rs meta w) =
      [(''rss'', ''START'', ''Updating RSS feed''), (''rss'', ''FAIL'', msg)]"
    by (simp add: step_rss_outcomes)
next
  assume "d v \<noteq> None \<and> ff_returncode (ffmpeg v a d) \<noteq> 0"
  then show "snd (extract_audio ffmpeg ed v a d) =
      Inl (''ffmpeg failed: '' @ take 500 (ff_stderr (ffmpeg v a d)))"
    by (simp add: extract_audio_raises del: not_None_eq)
next
  show "length (''ffmpeg failed: '' @ take 500 (ff_stderr (ffmpeg v a d))) =
      15 + min 500 (length (ff_stderr (ffmpeg v a d)))"
    by (simp add: min.commute)
qed

theorem fail_detail_is_whole_message_witness:
  "''audio'' \<in> set all_steps \<and> files w_fresh ''video.mp4'' \<noteq> None \<and>
   files w_fresh ''audio.mp3'' = None \<and>
   ff_returncode (ffmpeg_bad ''video.mp4'' ''audio.mp3'' (files w_fresh)) \<noteq> 0 \<and>
   snd (exec_audio env_ffmpeg_bad ''video.mp4'' ''audio.mp3'' (files w_fresh)) =
     Inl (''ffmpeg failed: '' @ replicate 500 (CHR ''x'')) \<and>
   outcomes w_fresh (fst (step_audio env_ffmpeg_bad all_steps ''video.mp4'' w_fresh)) =
     [(''audio'', ''START'', ''Extracting from video.mp4''),
      (''audio'', ''FAIL'', ''ffmpeg failed: '' @ replicate 500 (CHR ''x''))] \<and>
   length (''ffmpeg failed: '' @ take 500 (ff_stderr (ffmpeg_bad ''video.mp4'' ''audio.mp3'' (files w_fresh))))
     = 515"
proof -
  have h: "files w_fresh ''video.mp4'' \<noteq> None \<and>
      ff_returncode (ffmpeg_bad ''video.mp4'' ''audio.mp3'' (files w_fresh)) \<noteq> 0"
    by (simp add: w_fresh_def ffmpeg_bad_def)
  note T = fail_detail_is_whole_message [where w = w_fresh and env = env_ffmpeg_bad and v = "''video.mp4''"
      and rs = all_steps and d = "files w_fresh" and a = "''audio.mp3''" and ffmpeg = ffmpeg_bad
      and ed = "''/podcast/episodes/ep001''"
      and msg = "''ffmpeg failed: '' @ replicate 500 (CHR ''x'')"]
  note raises = T [THEN conjunct2, THEN conjunct2, THEN conjunct2, THEN conjunct2, THEN conjunct2,
      rule_format, OF h]
  have e: "snd (exec_audio env_ffmpeg_bad ''video.mp4'' ''audio.mp3'' (files w_fresh)) =
     Inl (''ffmpeg failed: '' @ replicate 500 (CHR ''x''))"
    using raises [THEN conjunct1] by (simp add: env_ffmpeg_bad_def env_ok_def ffmpeg_bad_def)
  have g: "''audio'' \<in> set all_steps \<and> files w_fresh ''video.mp4'' \<noteq> None \<and>
      files w_fresh ''audio.mp3'' = None \<and>
      snd (exec_audio env_ffmpeg_bad ''video.mp4'' ''audio.mp3'' (files w_fresh)) =
        Inl (''ffmpeg failed: '' @ replicate 500 (CHR ''x''))"
    using e by (simp add: w_fresh_def all_steps_def)
  note o = T [THEN conjunct1, rule_format, OF g]
  have l: "length (''ffmpeg failed: '' @ take 500 (ff_stderr (ffmpeg_bad ''video.mp4'' ''audio.mp3'' (files w_fresh))))
     = 515"
    using raises [THEN conjunct2] by (simp add: ffmpeg_bad_def)
  from g h o l show ?thesis
    by (simp add: audio_detail_examples)
qed

text \<open>
  The claim as stated fails at \<open>ffmpeg\<close> leaving 600 characters on standard error: the
  \<open>FAIL\<close> record of the audio step has a detail of 515 characters.
\<close>

theorem fail_detail_over_500_counterexample:
  "e_status (last (publish_log (fst (publish_episode env_ffmpeg_bad None w_fresh)))) = ''FAIL'' \<and>
   e_step (last (publish_log (fst (publish_episode env_ffmpeg_bad None w_fresh)))) = ''audio'' \<and>
   length (e_detail (last (publish_log (fst (publish_episode env_ffmpeg_bad None w_fresh))))) = 515"
  by (simp add: run_defs example_defs)

text \<open>
  C8, as amended. A run only appends to \<open>publish.log\<close>: the text after the run is the text
  before it followed by the lines of the records the run appended. The line of a record is
  \<open>[\<close>, the clock reading as \<open>YYYY-MM-DD HH:MM:SS UTC\<close>, \<open>]\<close>, a space, the step name
  followed by spaces up to width 20 (padding on the right), a space, the outcome
  (\<open>START\<close>, \<open>DONE\<close>, \<open>FAIL\<close> or \<open>SKIP\<close>) followed by spaces up to width 10, a space, the
  detail, and a newline. When the detail holds no newline, this is exactly one
  newline-terminated line.
\<close>

theorem log_line_format:
  assumes "w' = fst (publish_episode env steps w)"
  shows "log_text (publish_log w') = log_text (publish_log w) @ log_text (appended w w') \<and>
         (\<forall>e \<in> set (appended w w').
            e_step e \<in> set all_steps \<and> e_status e \<in> statuses \<and>
            utc_timestamp (strftime (e_ts e)) \<and>
            format_line e =
              ''['' @ strftime (e_ts e) @ ''] '' @
              e_step e @ replicate (20 - length (e_step e)) (CHR '' '') @ '' '' @
              e_status e @ replicate (10 - length (e_status e)) (CHR '' '') @ '' '' @
              e_detail e @ [newline] \<and>
            length (e_step e) \<le> 20 \<and> length (e_status e) \<le> 10 \<and>
            (newline \<notin> set (e_detail e) \<longrightarrow>
               count_list (format_line e) newline = 1 \<and> last (format_line e) = newline))"
proof (intro conjI ballI impI)
  show "log_text (publish_log w') = log_text (publish_log w) @ log_text (appended w w')"
    unfolding assms log_text_append [symmetric] publish_episode_prefix [symmetric] by (rule refl)
next
  fix e
  assume "e \<in> set (appended w w')"
  then have m: "e_step e \<in> set all_steps \<and> e_status e \<in> statuses"
    unfolding assms by (rule publish_episode_appended)
  then show "e_step e \<in> set all_steps" "e_status e \<in> statuses"
    by simp_all
  note f = step_status_facts [OF m [THEN conjunct1] m [THEN conjunct2]]
  show "length (e_step e) \<le> 20" "length (e_status e) \<le> 10"
    by (rule f)+
  show "utc_timestamp (strftime (e_ts e))"
    by (rule utc_timestamp_strftime)
  show "format_line e =
      ''['' @ strftime (e_ts e) @ ''] '' @
      e_step e @ replicate (20 - length (e_step e)) (CHR '' '') @ '' '' @
      e_status e @ replicate (10 - length (e_status e)) (CHR '' '') @ '' '' @
      e_detail e @ [newline]"
    by (simp add: format_line_def ljust_def)
  assume d: "newline \<notin> set (e_detail e)"
  show "count_list (format_line e) newline = 1"
    by (rule format_line_one_line [OF f(3,4) d])
  show "last (format_line e) = newline"
    by (simp add: format_line_def)
qed

theorem log_line_format_witness:
  "appended w_done (fst (publish_episode env_ok (Some [''audio'']) w_done)) =
     [\<lparr>e_ts = clock0 0, e_step = ''audio'', e_status = ''SKIP'',
       e_detail = ''audio.mp3 already exists''\<rparr>] \<and>
   newline \<notin> set ''audio.mp3 already exists'' \<and>
   format_line \<lparr>e_ts = clock0 0, e_step = ''audio'', e_status = ''SKIP'',
       e_detail = ''audio.mp3 already exists''\<rparr> =
     ''[2024-03-09 14:05:00 UTC] audio                SKIP       audio.mp3 already exists'' @ [newline] \<and>
   count_list (format_line \<lparr>e_ts = clock0 0, e_step = ''audio'', e_status = ''SKIP'',
       e_detail = ''audio.mp3 already exists''\<rparr>) newline = 1 \<and>
   log_text (publish_log (fst (publish_episode env_ok (Some [''audio'']) w_done))) =
     log_text (publish_log w_done) @
     ''[2024-03-09 14:05:00 UTC] audio                SKIP       audio.mp3 already exists'' @ [newline]"
proof -
  define e where "e = \<lparr>e_ts = clock0 0, e_step = ''audio'', e_status = ''SKIP'',
       e_detail = ''audio.mp3 already exists''\<rparr>"
  have app: "appended w_done (fst (publish_episode env_ok (Some [''audio'']) w_done)) = [e]"
    by (simp add: run_defs example_defs e_def)
  have d: "newline \<notin> set (e_detail e)"
    by (simp add: e_def newline_def)
  have f: "format_line e =
      ''[2024-03-09 14:05:00 UTC] audio                SKIP       audio.mp3 already exists'' @ [newline]"
    by (simp add: e_def format_defs)
  note T = log_line_format [OF refl, of env_ok "Some [''audio'']" w_done]
  have "e \<in> set (appended w_done (fst (publish_episode env_ok (Some [''audio'']) w_done)))"
    by (simp add: app)
  note E = T [THEN conjunct2, THEN bspec, OF this]
  note c = E [THEN conjunct2, THEN conjunct2, THEN conjunct2, THEN conjunct2, THEN conjunct2,
      THEN conjunct2, rule_format, OF d, THEN conjunct1]
  from T [THEN conjunct1] have l: "log_text (publish_log (fst (publish_episode env_ok (Some [''audio'']) w_done))) =
     log_text (publish_log w_done) @
     ''[2024-03-09 14:05:00 UTC] audio                SKIP       audio.mp3 already exists'' @ [newline]"
    unfolding app by (simp add: log_text_def f)
  from app d f c l show ?thesis
    unfolding e_def by simp
qed

text \<open>
  The claim as stated fails on a detail that holds a newline. With no \<open>podcast.toml\<close>,
  \<open>load_podcast_config\<close> raises a \<open>FileNotFoundError\<close> whose message has two lines; the
  \<open>FAIL\<close> record of the \<open>rss\<close> step then takes two lines of the file. The last
  equation shows the padding: the spaces follow the step name and the outcome.
\<close>

theorem log_entry_two_lines_counterexample:
  "outcomes w_done (fst (publish_episode env_unconfigured (Some [''rss'']) w_done)) =
     [(''rss'', ''START'', ''Updating RSS feed''),
      (''rss'', ''FAIL'',
       ''No /podcast/podcast.toml found. Create it with your podcast info.'' @ [newline] @
       ''See podcast.toml.example for the format.'')] \<and>
   log_text (appended w_done (fst (publish_episode env_unconfigured (Some [''rss'']) w_done))) =
     ''[2024-03-09 14:05:00 UTC] rss                  START      Updating RSS feed'' @ [newline] @
     ''[2024-03-09 14:05:01 UTC] rss                  FAIL       No /podcast/podcast.toml found. Create it with your podcast info.'' @ [newline] @
     ''See podcast.toml.example for the format.'' @ [newline] \<and>
   count_list (format_line (last (publish_log
     (fst (publish_episode env_unconfigured (Some [''rss'']) w_done))))) newline = 2 \<and>
   log_text (appended w_done (fst (publish_episode env_ok (Some [''audio'']) w_done))) =
     ''[2024-03-09 14:05:00 UTC] audio                SKIP       audio.mp3 already exists'' @ [newline]"
  by (simp add: run_defs world_defs rss_defs format_defs newline_def)

end
